theory Spec2Isabelle
  imports Complex_Main
begin

section \<open>Data model of the report pipeline\<close>

text \<open>
  The report pipeline of the repository turns scenario-definition files and the
  test runner's results into a list of features (\<^verbatim>\<open>cucumber-report-generator.ts\<close>),
  and derives statistics from that list (\<^verbatim>\<open>report-statistics.ts\<close>).

  Modelling decisions, valid for the whole development:
  \<^item> a JavaScript \<^verbatim>\<open>number\<close> is an IEEE 754 binary64 value (\<open>number\<close> below): every
    arithmetic operation rounds its exact result to the nearest double, ties to even;
    the sign of zero is not kept (no operation of the modelled code tells \<open>-0\<close> from
    \<open>0\<close>: they are equally falsy, \<^verbatim>\<open>JSON.stringify\<close> writes both as \<open>0\<close>, and every
    divisor is a positive count or constant);
  \<^item> a counter that starts at 0 and is incremented by one for an element of an array in
    memory (\<^verbatim>\<open>totalScenarios++\<close>) is an \<^typ>\<open>int\<close>: such counts stay below \<open>2 ^ 53\<close>,
    where every integer is a double and the increment is exact;
  \<^item> an optional property (\<^verbatim>\<open>duration?: number\<close>) is an \<^typ>\<open>'a option\<close>, \<open>None\<close> being
    \<^verbatim>\<open>undefined\<close> (or \<^verbatim>\<open>null\<close> after \<^verbatim>\<open>JSON.parse\<close>);
  \<^item> a string is a \<^typ>\<open>string\<close>; the functions that depend on the class of a character
    (\<^verbatim>\<open>trim\<close>, \<^verbatim>\<open>toLowerCase\<close>, \<^verbatim>\<open>\s\<close>, \<^verbatim>\<open>\w\<close>, \<^verbatim>\<open>.\<close>) are modelled on ASCII, and the
    statements about them are restricted to ASCII strings (\<open>ascii\<close> below);
  \<^item> an object used as a dictionary (\<^verbatim>\<open>Record<string, T>\<close>, created as \<^verbatim>\<open>{}\<close>) has own
    properties and the properties it inherits from \<^verbatim>\<open>Object.prototype\<close>.
\<close>

subsection \<open>Numbers\<close>

text \<open>
  The values of a binary64 number: the finite ones are the rationals \<open>m * 2 ^ q\<close> with
  \<open>\<bar>m\<bar> < 2 ^ 53\<close> and \<open>- 1074 \<le> q \<le> 971\<close>; the operations below return only such.
\<close>

datatype number = Fin rat | PInf | NInf | NaN

text \<open>
  The binary exponent of a rational \<open>x \<noteq> 0\<close>: the \<open>e\<close> with \<open>2 ^ e \<le> \<bar>x\<bar> < 2 ^ (e + 1)\<close>
  (\<open>exponent_bounds\<close> below), found by halving or doubling.
\<close>

function exp_up :: "rat \<Rightarrow> nat" where
  "exp_up x = (if x < 2 then 0 else Suc (exp_up (x / 2)))"
  by pat_completeness auto
termination
  by (relation "measure (\<lambda>x. nat \<lfloor>x\<rfloor>)") (auto, linarith)

function exp_down :: "rat \<Rightarrow> nat" where
  "exp_down x = (if x \<le> 0 \<or> 1 \<le> x then 0 else Suc (exp_down (x * 2)))"
  by pat_completeness auto
termination
proof (relation "measure (\<lambda>x. nat \<lceil>1 / x\<rceil>)")
  show "wf (measure (\<lambda>x::rat. nat \<lceil>1 / x\<rceil>))" by simp
next
  fix x :: rat
  assume "\<not> (x \<le> 0 \<or> 1 \<le> x)"
  then have x: "0 < x" "x < 1" by auto
  then have y: "1 < 1 / x" by simp
  then have c: "2 \<le> \<lceil>1 / x\<rceil>" by linarith
  have "1 / (x * 2) = (1 / x) / 2" by simp
  also have "\<dots> \<le> of_int \<lceil>1 / x\<rceil> / 2" by (simp add: divide_right_mono)
  also have "\<dots> \<le> of_int (\<lceil>1 / x\<rceil> - 1)" using c by simp
  finally have "\<lceil>1 / (x * 2)\<rceil> \<le> \<lceil>1 / x\<rceil> - 1" by (simp only: ceiling_le_iff)
  then show "(x * 2, x) \<in> measure (\<lambda>x. nat \<lceil>1 / x\<rceil>)"
    using c x by simp
qed

definition exponent :: "rat \<Rightarrow> int" where
  "exponent x = (if 1 \<le> \<bar>x\<bar> then int (exp_up \<bar>x\<bar>) else - int (exp_down \<bar>x\<bar>))"

text \<open>The nearest integer, a tie going to the even one.\<close>

definition round_even :: "rat \<Rightarrow> int" where
  "round_even x = (let n = \<lfloor>x\<rfloor>; r = x - of_int n
     in if r < 1 / 2 then n else if 1 / 2 < r then n + 1 else if even n then n else n + 1)"

text \<open>\<open>2 ^ q\<close> for an integer \<open>q\<close>.\<close>

definition pow2 :: "int \<Rightarrow> rat" where
  "pow2 q = (if 0 \<le> q then of_int (2 ^ nat q) else 1 / of_int (2 ^ nat (- q)))"

text \<open>
  The rounding of an exact result to binary64 (round to nearest, ties to even): the
  result is a multiple of \<open>2 ^ q\<close>, where \<open>q\<close> leaves 53 bits to the significand and is not
  less than the exponent \<open>- 1074\<close> of the subnormal numbers; a rounded value of magnitude
  \<open>2 ^ 1024\<close> or more overflows to an infinity.
\<close>

definition round_double :: "rat \<Rightarrow> number" where
  "round_double x =
     (if x = 0 then Fin 0
      else (let q = max (exponent x - 52) (- 1074);
                r = of_int (round_even (x / pow2 q)) * pow2 q
            in if of_int (2 ^ 1024) \<le> r then PInf
               else if r \<le> - of_int (2 ^ 1024) then NInf
               else Fin r))"

text \<open>
  The operators \<^verbatim>\<open>+\<close>, \<^verbatim>\<open>*\<close> and \<^verbatim>\<open>/\<close> on numbers. A division by zero gives the infinity of
  the sign of the dividend (the zero divisor counts as \<open>+0\<close>).
\<close>

definition negative :: "number \<Rightarrow> bool" where
  "negative a = (case a of Fin x \<Rightarrow> x < 0 | NInf \<Rightarrow> True | _ \<Rightarrow> False)"

definition js_add :: "number \<Rightarrow> number \<Rightarrow> number" where
  "js_add a b =
     (case (a, b) of
        (Fin x, Fin y) \<Rightarrow> round_double (x + y)
      | (NaN, _) \<Rightarrow> NaN
      | (_, NaN) \<Rightarrow> NaN
      | (PInf, NInf) \<Rightarrow> NaN
      | (NInf, PInf) \<Rightarrow> NaN
      | (Fin x, _) \<Rightarrow> b
      | _ \<Rightarrow> a)"

definition js_mul :: "number \<Rightarrow> number \<Rightarrow> number" where
  "js_mul a b =
     (case (a, b) of
        (Fin x, Fin y) \<Rightarrow> round_double (x * y)
      | _ \<Rightarrow> if a = NaN \<or> b = NaN \<or> a = Fin 0 \<or> b = Fin 0 then NaN
             else if negative a = negative b then PInf else NInf)"

definition js_div :: "number \<Rightarrow> number \<Rightarrow> number" where
  "js_div a b =
     (case (a, b) of
        (Fin x, Fin y) \<Rightarrow>
          if y = 0 then (if x = 0 then NaN else if 0 < x then PInf else NInf)
          else round_double (x / y)
      | (Fin x, PInf) \<Rightarrow> Fin 0
      | (Fin x, NInf) \<Rightarrow> Fin 0
      | (PInf, Fin y) \<Rightarrow> if y < 0 then NInf else PInf
      | (NInf, Fin y) \<Rightarrow> if y < 0 then PInf else NInf
      | _ \<Rightarrow> NaN)"

text \<open>
  \<^verbatim>\<open>Math.round\<close>: the nearest integer, a tie going up; an infinity and \<^verbatim>\<open>NaN\<close> are
  returned as they are.
\<close>

definition Math_round :: "number \<Rightarrow> number" where
  "Math_round a = (case a of Fin x \<Rightarrow> Fin (of_int \<lfloor>x + 1 / 2\<rfloor>) | _ \<Rightarrow> a)"

text \<open>
  The truthiness test \<^verbatim>\<open>if (step.result.duration)\<close> and the operand of
  \<^verbatim>\<open>test.duration || 0\<close> on an optional number: \<^verbatim>\<open>undefined\<close>, \<^verbatim>\<open>null\<close>, \<^verbatim>\<open>0\<close> and \<^verbatim>\<open>NaN\<close>
  are falsy.
\<close>

definition truthy_number :: "number option \<Rightarrow> bool" where
  "truthy_number d = (case d of None \<Rightarrow> False | Some v \<Rightarrow> v \<noteq> Fin 0 \<and> v \<noteq> NaN)"

text \<open>The conversion of an operand to a number: \<^verbatim>\<open>undefined\<close> becomes \<^verbatim>\<open>NaN\<close>.\<close>

definition to_number :: "number option \<Rightarrow> number" where
  "to_number d = (case d of None \<Rightarrow> NaN | Some v \<Rightarrow> v)"

text \<open>
  A number property written by \<^verbatim>\<open>JSON.stringify\<close> and read back by \<^verbatim>\<open>JSON.parse\<close>: a
  finite number comes back as it was, an infinity or \<^verbatim>\<open>NaN\<close> is written as \<^verbatim>\<open>null\<close>, and a
  property whose value is \<^verbatim>\<open>undefined\<close> is left out.
\<close>

definition json_number :: "number option \<Rightarrow> number option" where
  "json_number d = (case d of Some (Fin x) \<Rightarrow> Some (Fin x) | _ \<Rightarrow> None)"

subsection \<open>Features, scenarios and steps\<close>

datatype status = Passed | Failed | Skipped | Undefined

text \<open>
  The result of a step: \<^verbatim>\<open>CucumberStep.result\<close> in the generator and \<^verbatim>\<open>TestResult\<close> of
  \<^verbatim>\<open>report-types.ts\<close> in the report (whose optional \<^verbatim>\<open>start_timestamp\<close> and
  \<^verbatim>\<open>end_timestamp\<close> no function of this development reads or writes). The status
  \<open>Undefined\<close> stands for a string other than the three that the code tests for.
\<close>

record result =
  status :: status
  duration :: "number option"
  error_message :: "string option"

record step =
  step_keyword :: string
  step_name :: string
  result :: result

text \<open>
  \<^verbatim>\<open>CucumberScenario\<close> and \<^verbatim>\<open>CucumberFeature\<close> of the generator, \<^verbatim>\<open>TestScenario\<close> and
  \<^verbatim>\<open>TestFeature\<close> of \<^verbatim>\<open>report-types.ts\<close>: the same fields. The type parameter is what the
  \<^verbatim>\<open>steps\<close> array holds: references to step objects (\<^typ>\<open>nat\<close>, addresses in a store)
  while the generator builds and mutates the feature, and the step values themselves
  (\<^typ>\<open>step\<close>, a \<^verbatim>\<open>TestStep\<close>) in the JSON that the report reads.
\<close>

record 's scenario =
  scenario_keyword :: string
  scenario_name :: string
  steps :: "'s list option"

record 's feature =
  feature_keyword :: string
  feature_name :: string
  uri :: "string option"
  elements :: "'s scenario list option"

type_synonym TestScenario = "step scenario"
type_synonym TestFeature = "step feature"

text \<open>
  \<^verbatim>\<open>TestStats\<close> and \<^verbatim>\<open>FeatureStats\<close> of \<^verbatim>\<open>report-types.ts\<close>. The counts are counters;
  \<^verbatim>\<open>totalDuration\<close>, \<^verbatim>\<open>passRate\<close> and \<^verbatim>\<open>duration\<close> are results of \<^verbatim>\<open>Math.round\<close>.
\<close>

record TestStats =
  totalScenarios :: int
  passedScenarios :: int
  failedScenarios :: int
  skippedScenarios :: int
  totalSteps :: int
  passedSteps :: int
  failedSteps :: int
  skippedSteps :: int
  totalDuration :: number
  passRate :: number

record FeatureStats =
  passed :: int
  failed :: int
  skipped :: int
  fs_duration :: number

section \<open>JavaScript primitives\<close>

text \<open>\<^verbatim>\<open>xs?.forEach(f)\<close> and \<^verbatim>\<open>xs || []\<close> on an optional array.\<close>

definition or_empty :: "'a list option \<Rightarrow> 'a list" where
  "or_empty xs = (case xs of None \<Rightarrow> [] | Some ys \<Rightarrow> ys)"

text \<open>
  The names of the properties of \<^verbatim>\<open>Object.prototype\<close>. An object created as \<^verbatim>\<open>{}\<close>
  inherits them: read under one of these names, it yields a function (for \<^verbatim>\<open>__proto__\<close>
  its prototype), which is truthy, unless it has an own property of that name.
\<close>

definition object_prototype_names :: "string list" where
  "object_prototype_names =
     [''constructor'', ''__defineGetter__'', ''__defineSetter__'', ''hasOwnProperty'',
      ''__lookupGetter__'', ''__lookupSetter__'', ''isPrototypeOf'', ''propertyIsEnumerable'',
      ''toString'', ''valueOf'', ''__proto__'', ''toLocaleString'']"

section \<open>The statistics engine (\<^verbatim>\<open>report-statistics.ts\<close>)\<close>

text \<open>
  The local variables of \<^verbatim>\<open>generateStatistics\<close>. \<^verbatim>\<open>totalDuration\<close> accumulates
  nanoseconds and is rounded to milliseconds only in the returned object.
\<close>

record counters =
  c_totalScenarios :: int
  c_passedScenarios :: int
  c_failedScenarios :: int
  c_skippedScenarios :: int
  c_totalSteps :: int
  c_passedSteps :: int
  c_failedSteps :: int
  c_skippedSteps :: int
  c_totalDuration :: number

definition counters0 :: counters where
  "counters0 = \<lparr>c_totalScenarios = 0, c_passedScenarios = 0, c_failedScenarios = 0,
     c_skippedScenarios = 0, c_totalSteps = 0, c_passedSteps = 0, c_failedSteps = 0,
     c_skippedSteps = 0, c_totalDuration = Fin 0\<rparr>"

text \<open>
  The body of \<^verbatim>\<open>scenario.steps?.forEach(step => ...)\<close>: the state is the counters
  with the two flags \<^verbatim>\<open>scenarioHasFailed\<close> and \<^verbatim>\<open>scenarioHasSkipped\<close>.
\<close>

definition stats_step :: "step \<Rightarrow> counters \<times> bool \<times> bool \<Rightarrow> counters \<times> bool \<times> bool" where
  "stats_step st = (\<lambda>(c, hasFailed, hasSkipped).
     let c1 = c\<lparr>c_totalSteps := c_totalSteps c + 1\<rparr>;
         c2 = (if truthy_number (duration (result st))
               then c1\<lparr>c_totalDuration := js_add (c_totalDuration c1) (the (duration (result st)))\<rparr>
               else c1\<lparr>c_totalDuration := js_add (c_totalDuration c1)
                       (js_mul (Fin (if status (result st) = Failed then 2000 else 500))
                               (Fin 1000000))\<rparr>)
     in (case status (result st) of
           Passed \<Rightarrow> (c2\<lparr>c_passedSteps := c_passedSteps c2 + 1\<rparr>, hasFailed, hasSkipped)
         | Failed \<Rightarrow> (c2\<lparr>c_failedSteps := c_failedSteps c2 + 1\<rparr>, True, hasSkipped)
         | Skipped \<Rightarrow> (c2\<lparr>c_skippedSteps := c_skippedSteps c2 + 1\<rparr>, hasFailed, True)
         | Undefined \<Rightarrow> (c2, hasFailed, hasSkipped)))"

text \<open>The body of \<^verbatim>\<open>feature.elements?.forEach(scenario => ...)\<close>.\<close>

definition stats_scenario :: "TestScenario \<Rightarrow> counters \<Rightarrow> counters" where
  "stats_scenario sc c =
     (let c1 = c\<lparr>c_totalScenarios := c_totalScenarios c + 1\<rparr>;
          (c2, scenarioHasFailed, scenarioHasSkipped) =
             fold stats_step (or_empty (steps sc)) (c1, False, False)
      in if scenarioHasFailed then c2\<lparr>c_failedScenarios := c_failedScenarios c2 + 1\<rparr>
         else if scenarioHasSkipped then c2\<lparr>c_skippedScenarios := c_skippedScenarios c2 + 1\<rparr>
         else c2\<lparr>c_passedScenarios := c_passedScenarios c2 + 1\<rparr>)"

definition stats_feature :: "TestFeature \<Rightarrow> counters \<Rightarrow> counters" where
  "stats_feature f c = fold stats_scenario (or_empty (elements f)) c"

definition generateStatistics :: "TestFeature list \<Rightarrow> TestStats" where
  "generateStatistics features =
     (let c = fold stats_feature features counters0
      in \<lparr>totalScenarios = c_totalScenarios c,
          passedScenarios = c_passedScenarios c,
          failedScenarios = c_failedScenarios c,
          skippedScenarios = c_skippedScenarios c,
          totalSteps = c_totalSteps c,
          passedSteps = c_passedSteps c,
          failedSteps = c_failedSteps c,
          skippedSteps = c_skippedSteps c,
          totalDuration = Math_round (js_div (c_totalDuration c) (Fin 1000000)),
          passRate = (if c_totalScenarios c > 0
                      then Math_round (js_mul (js_div (Fin (of_int (c_passedScenarios c)))
                                                      (Fin (of_int (c_totalScenarios c))))
                                              (Fin 100))
                      else Fin 0)\<rparr>)"

text \<open>\<^verbatim>\<open>getScenarioStatus\<close>: failed dominates skipped dominates passed.\<close>

definition getScenarioStatus :: "TestScenario \<Rightarrow> string" where
  "getScenarioStatus sc =
     (let sts = or_empty (steps sc)
      in if list_ex (\<lambda>st. status (result st) = Failed) sts then ''failed''
         else if list_ex (\<lambda>st. status (result st) = Skipped) sts then ''skipped''
         else ''passed'')"





section \<open>Strings and regular expressions\<close>

text \<open>
  A string of ASCII characters. On these the definitions of this section agree with
  ECMAScript; beyond ASCII there are further white space characters (U+00A0, U+FEFF, the
  space separators), line terminators (U+2028, U+2029) and letters with a case, which
  the definitions do not know. Every statement that depends on them assumes \<open>ascii\<close> of
  its strings.
\<close>

definition ascii :: "string \<Rightarrow> bool" where
  "ascii s = list_all (\<lambda>c. of_char c < (128::nat)) s"

text \<open>
  \<^verbatim>\<open>WhiteSpace\<close> and \<^verbatim>\<open>LineTerminator\<close> of ECMAScript, restricted to ASCII: what
  \<^verbatim>\<open>String.prototype.trim\<close> strips and what \<^verbatim>\<open>\s\<close> matches; \<^verbatim>\<open>.\<close> matches every
  character that is no line terminator; \<^verbatim>\<open>\w\<close> is \<^verbatim>\<open>[A-Za-z0-9_]\<close>.
\<close>

definition isWhiteSpace :: "char \<Rightarrow> bool" where
  "isWhiteSpace c = (c = CHR 0x09 \<or> c = CHR 0x0A \<or> c = CHR 0x0B \<or> c = CHR 0x0C \<or>
                     c = CHR 0x0D \<or> c = CHR '' '')"

definition isLineTerminator :: "char \<Rightarrow> bool" where
  "isLineTerminator c = (c = CHR 0x0A \<or> c = CHR 0x0D)"

definition lowers :: string where
  "lowers = ''abcdefghijklmnopqrstuvwxyz''"

definition uppers :: string where
  "uppers = ''ABCDEFGHIJKLMNOPQRSTUVWXYZ''"

definition isWordChar :: "char \<Rightarrow> bool" where
  "isWordChar c = (c \<in> set lowers \<or> c \<in> set uppers \<or> c \<in> set ''0123456789'' \<or> c = CHR ''_'')"

definition toUpperCase_char :: "char \<Rightarrow> char" where
  "toUpperCase_char c = (case map_of (zip lowers uppers) c of Some u \<Rightarrow> u | None \<Rightarrow> c)"

definition toLowerCase_char :: "char \<Rightarrow> char" where
  "toLowerCase_char c = (case map_of (zip uppers lowers) c of Some l \<Rightarrow> l | None \<Rightarrow> c)"

definition toLowerCase :: "string \<Rightarrow> string" where
  "toLowerCase s = map toLowerCase_char s"

definition str_trim :: "string \<Rightarrow> string" where
  "str_trim s = rev (dropWhile isWhiteSpace (rev (dropWhile isWhiteSpace s)))"

definition str_startsWith :: "string \<Rightarrow> string \<Rightarrow> bool" where
  "str_startsWith s p = (take (length p) s = p)"

definition str_endsWith :: "string \<Rightarrow> string \<Rightarrow> bool" where
  "str_endsWith s p = (length p \<le> length s \<and> drop (length s - length p) s = p)"

text \<open>\<^verbatim>\<open>s.includes(sub)\<close>.\<close>

fun str_includes :: "string \<Rightarrow> string \<Rightarrow> bool" where
  "str_includes [] sub = (sub = [])"
| "str_includes (c # cs) sub = (str_startsWith (c # cs) sub \<or> str_includes cs sub)"

text \<open>\<^verbatim>\<open>s.split(sep)\<close> for a separator of one character.\<close>

fun str_split :: "char \<Rightarrow> string \<Rightarrow> string list" where
  "str_split sep [] = [[]]"
| "str_split sep (c # cs) =
     (if c = sep then [] # str_split sep cs
      else (case str_split sep cs of [] \<Rightarrow> [[c]] | l # ls \<Rightarrow> (c # l) # ls))"

text \<open>\<^verbatim>\<open>s.replace(pat, rep)\<close> with a string pattern: the first occurrence only.\<close>

fun str_replace :: "string \<Rightarrow> string \<Rightarrow> string \<Rightarrow> string" where
  "str_replace pat rep [] = (if pat = [] then rep else [])"
| "str_replace pat rep (c # cs) =
     (if str_startsWith (c # cs) pat then rep @ drop (length pat) (c # cs)
      else c # str_replace pat rep cs)"

text \<open>\<^verbatim>\<open>s.replace(/c/g, d)\<close> for a pattern of one literal character.\<close>

definition replace_char :: "char \<Rightarrow> char \<Rightarrow> string \<Rightarrow> string" where
  "replace_char c d s = map (\<lambda>x. if x = c then d else x) s"

text \<open>
  \<^verbatim>\<open>s.replace(/\b\w/g, l => l.toUpperCase())\<close>: a word character is replaced when the
  character before it is no word character (or there is none). The flag is whether the
  previous character is a word character.
\<close>

fun upcase_word_starts :: "bool \<Rightarrow> string \<Rightarrow> string" where
  "upcase_word_starts prev [] = []"
| "upcase_word_starts prev (c # cs) =
     (if isWordChar c \<and> \<not> prev then toUpperCase_char c else c)
       # upcase_word_starts (isWordChar c) cs"

text \<open>
  The regular expressions of the source are sequences of three kinds of atom: a literal
  string, an alternative of literal strings, and a character class under a quantifier
  (\<^verbatim>\<open>\s*\<close>, \<^verbatim>\<open>\s+\<close>, \<^verbatim>\<open>.+\<close>, \<^verbatim>\<open>.+?\<close>) with its least count and whether it is greedy. An
  atom may be a capturing group, and \<^verbatim>\<open>$\<close> ends a pattern. The matcher is the
  backtracking one of ECMAScript: the lengths an atom can take are tried in the order
  of its priority (longest first when greedy, shortest first when lazy), each with the
  whole rest of the pattern, and the first success is the match.
\<close>

datatype cls = AnyChar | Space

datatype atom = Lit string | Alt "string list" | Rep cls nat bool

datatype item = Match atom | Capture atom | Eos

fun in_cls :: "cls \<Rightarrow> char \<Rightarrow> bool" where
  "in_cls AnyChar c = (\<not> isLineTerminator c)"
| "in_cls Space c = isWhiteSpace c"

text \<open>The lengths \<open>0, 1, ...\<close> of the prefixes of a string that lie in a class.\<close>

fun run_lengths :: "cls \<Rightarrow> string \<Rightarrow> nat list" where
  "run_lengths k [] = [0]"
| "run_lengths k (c # cs) = 0 # (if in_cls k c then map Suc (run_lengths k cs) else [])"

fun lengths :: "atom \<Rightarrow> string \<Rightarrow> nat list" where
  "lengths (Lit l) s = (if str_startsWith s l then [length l] else [])"
| "lengths (Alt ls) s = map length (filter (str_startsWith s) ls)"
| "lengths (Rep k least greedy) s =
     (let ns = filter (\<lambda>n. least \<le> n) (run_lengths k s)
      in if greedy then rev ns else ns)"

fun first_some :: "('a \<Rightarrow> 'b option) \<Rightarrow> 'a list \<Rightarrow> 'b option" where
  "first_some f [] = None"
| "first_some f (x # xs) = (case f x of Some y \<Rightarrow> Some y | None \<Rightarrow> first_some f xs)"

fun match_here :: "item list \<Rightarrow> string \<Rightarrow> string list \<Rightarrow> string list option" where
  "match_here [] s caps = Some caps"
| "match_here (Eos # is) s caps = (if s = [] then match_here is s caps else None)"
| "match_here (Match a # is) s caps =
     first_some (\<lambda>n. match_here is (drop n s) caps) (lengths a s)"
| "match_here (Capture a # is) s caps =
     first_some (\<lambda>n. match_here is (drop n s) (caps @ [take n s])) (lengths a s)"

text \<open>
  \<^verbatim>\<open>s.match(re)\<close> for an unanchored pattern without the \<^verbatim>\<open>g\<close> flag: the leftmost
  position at which the pattern matches; the result is the list of the captures.
\<close>

definition regex_search :: "item list \<Rightarrow> string \<Rightarrow> string list option" where
  "regex_search re s = first_some (\<lambda>i. match_here re (drop i s) []) [0..<Suc (length s)]"

section \<open>The generator (\<^verbatim>\<open>cucumber-report-generator.ts\<close>)\<close>

subsection \<open>The store of step objects\<close>

text \<open>
  \<^verbatim>\<open>parseFeatureFile\<close> creates step objects and puts references to them into the
  \<^verbatim>\<open>steps\<close> arrays: \<^verbatim>\<open>steps: [...backgroundSteps]\<close> copies the array of the background
  steps, not the objects in it, so every scenario of a file refers to the same
  background step objects. \<^verbatim>\<open>mergeFeatureWithResults\<close> then assigns to
  \<^verbatim>\<open>step.result.status\<close> and \<^verbatim>\<open>step.result.duration\<close> in place. The store is the list of
  all step objects created so far; a reference is an index into it, and a new object is
  appended at the end.
\<close>

type_synonym ref = nat
type_synonym store = "step list"
type_synonym CucumberScenario = "ref scenario"
type_synonym CucumberFeature = "ref feature"

definition set_result :: "ref \<Rightarrow> (result \<Rightarrow> result) \<Rightarrow> store \<Rightarrow> store" where
  "set_result r upd h = h[r := (h ! r)\<lparr>result := upd (result (h ! r))\<rparr>]"

text \<open>
  \<^verbatim>\<open>JSON.stringify\<close> writes every step through the reference that leads to it, so a
  shared step appears once in every scenario that holds it, with the values it has when
  the JSON is written; the report reads the file with \<^verbatim>\<open>JSON.parse\<close>.
\<close>

definition serialize_step :: "step \<Rightarrow> step" where
  "serialize_step st = st\<lparr>result := (result st)\<lparr>duration := json_number (duration (result st))\<rparr>\<rparr>"

definition serialize_scenario :: "store \<Rightarrow> CucumberScenario \<Rightarrow> TestScenario" where
  "serialize_scenario h sc =
     \<lparr>scenario_keyword = scenario_keyword sc, scenario_name = scenario_name sc,
      steps = map_option (map (\<lambda>r. serialize_step (h ! r))) (steps sc)\<rparr>"

definition serialize_feature :: "store \<Rightarrow> CucumberFeature \<Rightarrow> TestFeature" where
  "serialize_feature h f =
     \<lparr>feature_keyword = feature_keyword f, feature_name = feature_name f, uri = uri f,
      elements = map_option (map (serialize_scenario h)) (elements f)\<rparr>"

subsection \<open>\<^verbatim>\<open>parseFeatureFile\<close>\<close>

record parser_state =
  ps_name :: string
  currentScenario :: "CucumberScenario option"
  backgroundSteps :: "ref list"
  scenarios :: "CucumberScenario list"
  ps_store :: store

definition step_keywords :: "string list" where
  "step_keywords = [''Given'', ''When'', ''Then'', ''And'', ''But'']"

text \<open>\<^verbatim>\<open>/^\s*(Given|When|Then|And|But)\s+/\<close>\<close>

definition step_prefix_re :: "item list" where
  "step_prefix_re = [Match (Rep Space 0 True), Capture (Alt step_keywords), Match (Rep Space 1 True)]"

text \<open>\<^verbatim>\<open>/^\s*(Given|When|Then|And|But)\s+(.+)$/\<close>\<close>

definition step_re :: "item list" where
  "step_re = [Match (Rep Space 0 True), Capture (Alt step_keywords), Match (Rep Space 1 True),
              Capture (Rep AnyChar 1 True), Eos]"

definition new_step :: "string \<Rightarrow> string \<Rightarrow> step" where
  "new_step k n = \<lparr>step_keyword = k, step_name = n,
     result = \<lparr>status = Passed, duration = Some (Fin 1000000000), error_message = None\<rparr>\<rparr>"

text \<open>
  The test \<^verbatim>\<open>trimmedLine.match(/^\s*(Given|When|Then|And|But)\s+/)\<close> followed by
  \<^verbatim>\<open>stepMatch = trimmedLine.match(/^\s*(Given|When|Then|And|But)\s+(.+)$/)\<close>: the
  keyword and the name of the step, when both match.
\<close>

definition stepMatch :: "string \<Rightarrow> (string \<times> string) option" where
  "stepMatch trimmedLine =
     (if match_here step_prefix_re trimmedLine [] = None then None
      else (case match_here step_re trimmedLine [] of
              Some [k, n] \<Rightarrow> Some (k, n)
            | _ \<Rightarrow> None))"

text \<open>The branch of a \<^verbatim>\<open>Scenario:\<close> line: the previous scenario is saved, a new one begins.\<close>

definition start_scenario :: "string \<Rightarrow> parser_state \<Rightarrow> parser_state" where
  "start_scenario n s =
     s\<lparr>scenarios := (case currentScenario s of None \<Rightarrow> scenarios s
                      | Some sc \<Rightarrow> scenarios s @ [sc]),
       currentScenario := Some \<lparr>scenario_keyword = ''Scenario'', scenario_name = n,
                                 steps = Some (backgroundSteps s)\<rparr>\<rparr>"

text \<open>
  A new step object is created and pushed to the current scenario, or to the background
  steps when no scenario has begun.
\<close>

definition push_step :: "step \<Rightarrow> parser_state \<Rightarrow> parser_state" where
  "push_step st s =
     (let r = length (ps_store s); h = ps_store s @ [st] in
      case currentScenario s of
        Some sc \<Rightarrow> s\<lparr>currentScenario := Some (sc\<lparr>steps := Some (or_empty (steps sc) @ [r])\<rparr>),
                     ps_store := h\<rparr>
      | None \<Rightarrow> s\<lparr>backgroundSteps := backgroundSteps s @ [r], ps_store := h\<rparr>)"

text \<open>The body of \<^verbatim>\<open>for (const line of lines)\<close>.\<close>

definition parse_line :: "string \<Rightarrow> parser_state \<Rightarrow> parser_state" where
  "parse_line line s =
     (let trimmedLine = str_trim line in
      if str_startsWith trimmedLine ''Feature:''
      then s\<lparr>ps_name := str_trim (str_replace ''Feature:'' [] trimmedLine)\<rparr>
      else if str_startsWith trimmedLine ''Background:''
      then s\<lparr>backgroundSteps := []\<rparr>
      else if str_startsWith trimmedLine ''Scenario:''
      then start_scenario (str_trim (str_replace ''Scenario:'' [] trimmedLine)) s
      else (case stepMatch trimmedLine of
              Some (k, n) \<Rightarrow> push_step (new_step k n) s
            | None \<Rightarrow> s))"

definition parser_state0 :: parser_state where
  "parser_state0 = \<lparr>ps_name = [], currentScenario = None, backgroundSteps = [],
     scenarios = [], ps_store = []\<rparr>"

text \<open>
  \<^verbatim>\<open>parseFeatureFile\<close> returns the feature, or \<^verbatim>\<open>null\<close> (\<open>None\<close>) when the feature name is
  empty; the model returns the store of the step objects with the feature.
\<close>

definition parseFeatureFile :: "string \<Rightarrow> string \<Rightarrow> (CucumberFeature \<times> store) option" where
  "parseFeatureFile content filePath =
     (let s = fold parse_line (str_split CHR 0x0A content) parser_state0;
          scs = (case currentScenario s of None \<Rightarrow> scenarios s | Some sc \<Rightarrow> scenarios s @ [sc])
      in if ps_name s \<noteq> []
         then Some (\<lparr>feature_keyword = ''Feature'', feature_name = ps_name s,
                     uri = Some filePath, elements = Some scs\<rparr>, ps_store s)
         else None)"

subsection \<open>\<^verbatim>\<open>getTestResultsForFeature\<close>\<close>

record CypressTest =
  title :: "string list option"
  state :: "string option"
  test_duration :: "number option"
  displayError :: "string option"

record CypressRun =
  spec :: "string option"
  tests :: "CypressTest list option"

record CypressResults =
  runs :: "CypressRun list option"

text \<open>The interface \<^verbatim>\<open>TestResult\<close> of the generator: the record of one run of a scenario.\<close>

record TestResult =
  tr_status :: string
  tr_duration :: number
  tr_error_message :: "string option"

text \<open>
  The object \<^verbatim>\<open>testResults: Record<string, TestResult> = {}\<close>. An assignment
  \<^verbatim>\<open>testResults[k] = v\<close> creates or overwrites the own property \<open>k\<close>, except for the key
  \<^verbatim>\<open>__proto__\<close>, which is an accessor of \<^verbatim>\<open>Object.prototype\<close>: its setter makes the object
  \<open>v\<close> the prototype of \<^verbatim>\<open>testResults\<close>. The field \<open>prototype\<close> is \<open>None\<close> as long as the
  prototype is \<^verbatim>\<open>Object.prototype\<close> itself.
\<close>

record results_object =
  own :: "string \<rightharpoonup> TestResult"
  prototype :: "TestResult option"

definition empty_object :: results_object where
  "empty_object = \<lparr>own = Map.empty, prototype = None\<rparr>"

definition object_set :: "string \<Rightarrow> TestResult \<Rightarrow> results_object \<Rightarrow> results_object" where
  "object_set k v obj =
     (if k = ''__proto__'' then obj\<lparr>prototype := Some v\<rparr>
      else obj\<lparr>own := (own obj)(k \<mapsto> v)\<rparr>)"

text \<open>
  What \<^verbatim>\<open>testResults[k]\<close> yields, as far as the code can tell: a falsy value (\<open>Missing\<close>:
  \<^verbatim>\<open>undefined\<close>, or a falsy value found in the prototype chain), a run record (\<open>Found\<close>), or
  a truthy value that is no run record (\<open>Foreign\<close>: a function of \<^verbatim>\<open>Object.prototype\<close>, that
  object itself, or a truthy field of a run record that has become the prototype), all
  three of whose properties \<^verbatim>\<open>status\<close>, \<^verbatim>\<open>duration\<close> and \<^verbatim>\<open>error_message\<close> are
  \<^verbatim>\<open>undefined\<close>. The own properties are searched first, then the prototype chain.
\<close>

datatype looked_up = Missing | Found TestResult | Foreign

definition truthy_string :: "string option \<Rightarrow> bool" where
  "truthy_string e = (case e of None \<Rightarrow> False | Some t \<Rightarrow> t \<noteq> [])"

definition inherited :: "string \<Rightarrow> looked_up" where
  "inherited k = (if k \<in> set object_prototype_names then Foreign else Missing)"

definition foreign_if :: "bool \<Rightarrow> looked_up" where
  "foreign_if truthy = (if truthy then Foreign else Missing)"

definition object_get :: "results_object \<Rightarrow> string \<Rightarrow> looked_up" where
  "object_get obj k =
     (case own obj k of
        Some v \<Rightarrow> Found v
      | None \<Rightarrow>
          (case prototype obj of
             None \<Rightarrow> inherited k
           | Some p \<Rightarrow>
               if k = ''__proto__'' then Found p
               else if k = ''status'' then foreign_if (tr_status p \<noteq> [])
               else if k = ''duration'' then foreign_if (truthy_number (Some (tr_duration p)))
               else if k = ''error_message'' then foreign_if (truthy_string (tr_error_message p))
               else inherited k))"

text \<open>
  \<^verbatim>\<open>path.basename\<close> of Node (POSIX): the last segment of the path, slashes at the end
  not counting.
\<close>

definition basename :: "string \<Rightarrow> string" where
  "basename p = rev (takeWhile (\<lambda>c. c \<noteq> CHR ''/'') (dropWhile (\<lambda>c. c = CHR ''/'') (rev p)))"

text \<open>\<^verbatim>\<open>test.title?.[test.title.length - 1] || ''\<close>\<close>

definition last_title :: "CypressTest \<Rightarrow> string" where
  "last_title t = (case title t of None \<Rightarrow> [] | Some ts \<Rightarrow> if ts = [] then [] else last ts)"

text \<open>\<^verbatim>\<open>(test.duration || 0) * 1000000 // Convert ms to ns\<close>\<close>

definition nanoseconds :: "number option \<Rightarrow> number" where
  "nanoseconds d = js_mul (if truthy_number d then the d else Fin 0) (Fin 1000000)"

definition record_test :: "CypressTest \<Rightarrow> results_object \<Rightarrow> results_object" where
  "record_test t testResults =
     (let scenarioName = last_title t;
          st = (if state t = Some ''passed'' then ''passed''
                else if state t = Some ''pending'' then ''skipped''
                else ''failed'')
      in object_set scenarioName
           \<lparr>tr_status = st,
            tr_duration = nanoseconds (test_duration t),
            tr_error_message = displayError t\<rparr>
           testResults)"

definition record_run :: "string \<Rightarrow> CypressRun \<Rightarrow> results_object \<Rightarrow> results_object" where
  "record_run featureFile run testResults =
     (case spec run of
        None \<Rightarrow> testResults
      | Some specName \<Rightarrow>
          if str_includes specName (basename featureFile)
          then fold record_test (or_empty (tests run)) testResults
          else testResults)"

definition getTestResultsForFeature :: "CypressResults \<Rightarrow> string \<Rightarrow> results_object" where
  "getTestResultsForFeature results featureFile =
     fold (record_run featureFile) (or_empty (runs results)) empty_object"

subsection \<open>\<^verbatim>\<open>mergeFeatureWithResults\<close>\<close>

text \<open>
  \<^verbatim>\<open>detectFailedStepFromError\<close>; \<^verbatim>\<open>if (!errorMessage)\<close>: \<^verbatim>\<open>undefined\<close> and the empty string
  are falsy.
\<close>

definition detectFailedStepFromError :: "string option \<Rightarrow> 'a list \<Rightarrow> int" where
  "detectFailedStepFromError errorMessage sts =
     (if \<not> truthy_string errorMessage then int (length sts) - 1
      else if str_includes (the errorMessage) ''expected 1 to equal 2'' \<or>
              str_includes (the errorMessage) ''expect(1).to.eq(2)'' then 1
      else if str_includes (the errorMessage) ''expected 1 to equal 0'' \<or>
              str_includes (the errorMessage) ''expect(1).to.equal(0)'' then 1
      else int (length sts) - 1)"

text \<open>
  The three \<^verbatim>\<open>scenario.steps.forEach\<close> bodies; \<open>len\<close> is \<^verbatim>\<open>scenario.steps.length\<close>, and
  \<open>scenarioDuration\<close> is \<open>None\<close> when the destructured property is \<^verbatim>\<open>undefined\<close>.
\<close>

definition mark_passed :: "number option \<Rightarrow> nat \<Rightarrow> ref \<Rightarrow> store \<Rightarrow> store" where
  "mark_passed scenarioDuration len r =
     set_result r (\<lambda>x. x\<lparr>status := Passed,
                          duration := Some (js_div (to_number scenarioDuration) (Fin (of_nat len)))\<rparr>)"

definition mark_skipped :: "ref \<Rightarrow> store \<Rightarrow> store" where
  "mark_skipped r = set_result r (\<lambda>x. x\<lparr>status := Skipped, duration := Some (Fin 0)\<rparr>)"

definition mark_failed :: "number option \<Rightarrow> string option \<Rightarrow> ref \<Rightarrow> store \<Rightarrow> store" where
  "mark_failed scenarioDuration errorMessage r =
     set_result r (\<lambda>x. if truthy_string errorMessage
                        then x\<lparr>status := Failed, duration := scenarioDuration,
                               error_message := errorMessage\<rparr>
                        else x\<lparr>status := Failed, duration := scenarioDuration\<rparr>)"

definition mark_by_index ::
  "int \<Rightarrow> number option \<Rightarrow> string option \<Rightarrow> nat \<Rightarrow> nat \<times> ref \<Rightarrow> store \<Rightarrow> store" where
  "mark_by_index failedStepIndex scenarioDuration errorMessage len = (\<lambda>(index, r).
     if int index < failedStepIndex then mark_passed scenarioDuration len r
     else if int index = failedStepIndex then mark_failed scenarioDuration errorMessage r
     else mark_skipped r)"

text \<open>
  The branches on \<^verbatim>\<open>scenarioStatus\<close> after the destructuring
  \<^verbatim>\<open>{ status: scenarioStatus, duration: scenarioDuration, error_message: errorMessage }\<close>.
\<close>

definition merge_steps ::
  "string option \<Rightarrow> number option \<Rightarrow> string option \<Rightarrow> ref list \<Rightarrow> store \<Rightarrow> store" where
  "merge_steps scenarioStatus scenarioDuration errorMessage refs h =
     (if scenarioStatus = Some ''passed''
      then fold (mark_passed scenarioDuration (length refs)) refs h
      else if scenarioStatus = Some ''skipped''
      then fold mark_skipped refs h
      else fold (mark_by_index (detectFailedStepFromError errorMessage refs)
                   scenarioDuration errorMessage (length refs))
                (enumerate 0 refs) h)"

text \<open>
  The body of \<^verbatim>\<open>feature.elements.forEach(scenario => ...)\<close>: the guard
  \<^verbatim>\<open>if (scenario.steps && scenarioResult)\<close> lets every truthy value pass.
\<close>

definition merge_scenario :: "results_object \<Rightarrow> CucumberScenario \<Rightarrow> store \<Rightarrow> store" where
  "merge_scenario testResults sc h =
     (case steps sc of
        None \<Rightarrow> h
      | Some refs \<Rightarrow>
          (case object_get testResults (scenario_name sc) of
             Missing \<Rightarrow> h
           | Found scenarioResult \<Rightarrow>
               merge_steps (Some (tr_status scenarioResult)) (Some (tr_duration scenarioResult))
                 (tr_error_message scenarioResult) refs h
           | Foreign \<Rightarrow> merge_steps None None None refs h))"

text \<open>
  \<^verbatim>\<open>mergeFeatureWithResults\<close> returns the feature object it was given; what it changes
  is the store.
\<close>

definition mergeFeatureWithResults :: "CucumberFeature \<Rightarrow> results_object \<Rightarrow> store \<Rightarrow> store" where
  "mergeFeatureWithResults f testResults h =
     fold (merge_scenario testResults) (or_empty (elements f)) h"

text \<open>
  One round of the loop over the feature files in \<^verbatim>\<open>parseFeatureFilesAndCreateJson\<close>,
  for a file with the given content, followed by the serialisation of the feature it
  pushes: the entry of this file in the Cucumber JSON, as the report reads it.
\<close>

definition featureWithResults :: "CypressResults \<Rightarrow> string \<Rightarrow> string \<Rightarrow> TestFeature option" where
  "featureWithResults results featureContent featureFile =
     (case parseFeatureFile featureContent featureFile of
        None \<Rightarrow> None
      | Some (parsedFeature, h) \<Rightarrow>
          Some (serialize_feature
                  (mergeFeatureWithResults parsedFeature
                     (getTestResultsForFeature results featureFile) h)
                  parsedFeature))"

section \<open>The screenshots of the HTML report generator\<close>

text \<open>\<^verbatim>\<open>/(.+?)\s*--\s*(.+?)\s*\(failed\)/\<close>\<close>

definition old_format_re :: "item list" where
  "old_format_re = [Capture (Rep AnyChar 1 False), Match (Rep Space 0 True), Match (Lit ''--''),
     Match (Rep Space 0 True), Capture (Rep AnyChar 1 False), Match (Rep Space 0 True),
     Match (Lit ''(failed)'')]"

text \<open>\<^verbatim>\<open>/(.+?)_failed/\<close>\<close>

definition cleaned_re :: "item list" where
  "cleaned_re = [Capture (Rep AnyChar 1 False), Match (Lit ''_failed'')]"

text \<open>
  The test name that \<^verbatim>\<open>findScreenshots\<close> extracts from the name of a screenshot file:
  \<^verbatim>\<open>oldFormatMatch[2]\<close>, else \<^verbatim>\<open>cleanedMatch[1]\<close> with underscores as spaces and the
  first letter of every word upper-cased, else the file name without \<^verbatim>\<open>.png\<close> and with
  underscores as spaces.
\<close>

definition testName_of_file :: "string \<Rightarrow> string" where
  "testName_of_file file =
     (case regex_search old_format_re file of
        Some oldFormatMatch \<Rightarrow> oldFormatMatch ! 1
      | None \<Rightarrow>
          (case regex_search cleaned_re file of
             Some cleanedMatch \<Rightarrow>
               upcase_word_starts False (replace_char CHR ''_'' CHR '' '' (cleanedMatch ! 0))
           | None \<Rightarrow> replace_char CHR ''_'' CHR '' '' (str_replace ''.png'' [] file)))"

text \<open>
  \<^verbatim>\<open>isScenarioFailed\<close>. The \<^verbatim>\<open>Set<string>\<close> \<^verbatim>\<open>failedScenarios\<close> is the list of the
  names added to it: only membership and the existence of an element are asked of it.
\<close>

definition isScenarioFailed :: "string \<Rightarrow> string list \<Rightarrow> bool" where
  "isScenarioFailed testName failedSet =
     (if testName \<in> set failedSet then True
      else (let cleanTestName = str_trim (toLowerCase testName) in
            list_ex (\<lambda>failedScenario.
                let cleanFailedScenario = str_trim (toLowerCase failedScenario) in
                str_includes cleanFailedScenario cleanTestName \<or>
                str_includes cleanTestName cleanFailedScenario)
              failedSet))"

text \<open>The names that the first loop of \<^verbatim>\<open>findScreenshots\<close> adds to \<^verbatim>\<open>failedScenarios\<close>.\<close>

definition failedScenarios_of :: "TestFeature list \<Rightarrow> string list" where
  "failedScenarios_of cucumberData =
     concat (map (\<lambda>feature.
        map scenario_name
          (filter (\<lambda>scenario. getScenarioStatus scenario = ''failed'')
             (or_empty (elements feature))))
       cucumberData)"

text \<open>
  The body of \<^verbatim>\<open>files.forEach(file => ...)\<close> on the object
  \<^verbatim>\<open>screenshots: Record<string, string[]> = {}\<close>, whose own properties are the map. When
  \<open>testName\<close> is no own property but the name of a property of \<^verbatim>\<open>Object.prototype\<close>,
  \<^verbatim>\<open>screenshots[testName]\<close> is truthy, no array is assigned, and
  \<^verbatim>\<open>screenshots[testName].push(relativePath)\<close> throws a \<^verbatim>\<open>TypeError\<close>: the result is
  \<open>None\<close>. (No such name ever becomes an own property.)
\<close>

definition screenshot_file ::
  "string list \<Rightarrow> string \<Rightarrow> (string \<rightharpoonup> string list) \<Rightarrow> (string \<rightharpoonup> string list) option" where
  "screenshot_file failedSet fileName screenshots =
     (if str_endsWith fileName ''.png''
      then (let relativePath = ''screenshots/'' @ replace_char (CHR 0x5C) CHR ''/'' fileName;
                testName = testName_of_file fileName
            in if testName \<noteq> [] \<and> isScenarioFailed testName failedSet
               then (case screenshots testName of
                       Some paths \<Rightarrow> Some (screenshots(testName \<mapsto> paths @ [relativePath]))
                     | None \<Rightarrow>
                         if testName \<in> set object_prototype_names then None
                         else Some (screenshots(testName \<mapsto> [relativePath])))
               else Some screenshots)
      else Some screenshots)"

text \<open>
  \<^verbatim>\<open>try { files.forEach(...) } catch (error) { console.warn(...) }\<close>: an exception ends
  the loop, and the files after the one that threw are not looked at.
\<close>

fun screenshot_files ::
  "string list \<Rightarrow> string list \<Rightarrow> (string \<rightharpoonup> string list) \<Rightarrow> (string \<rightharpoonup> string list)" where
  "screenshot_files failedSet [] screenshots = screenshots"
| "screenshot_files failedSet (fileName # files) screenshots =
     (case screenshot_file failedSet fileName screenshots of
        None \<Rightarrow> screenshots
      | Some screenshots' \<Rightarrow> screenshot_files failedSet files screenshots')"

text \<open>
  \<^verbatim>\<open>findScreenshots\<close>. The file system is a parameter: \<open>None\<close> when the screenshots
  directory does not exist or cannot be read, else the file names that
  \<^verbatim>\<open>fs.readdirSync\<close> lists.
\<close>

definition findScreenshots ::
  "string list option \<Rightarrow> TestFeature list \<Rightarrow> (string \<rightharpoonup> string list)" where
  "findScreenshots dir cucumberData =
     (case dir of
        None \<Rightarrow> Map.empty
      | Some files \<Rightarrow> screenshot_files (failedScenarios_of cucumberData) files Map.empty)"

section \<open>Reference notions for the statements\<close>

text \<open>All scenarios of a feature list and all steps of a scenario list, in order.\<close>

definition allScenarios :: "TestFeature list \<Rightarrow> TestScenario list" where
  "allScenarios fs = concat (map (\<lambda>f. or_empty (elements f)) fs)"

definition allSteps :: "TestScenario list \<Rightarrow> step list" where
  "allSteps scs = concat (map (\<lambda>sc. or_empty (steps sc)) scs)"

text \<open>
  The number of scenarios of a feature list, and the number of those that count as
  passed: none of their steps is failed or skipped.
\<close>

definition all_steps_passed :: "TestScenario \<Rightarrow> bool" where
  "all_steps_passed sc =
     list_all (\<lambda>st. status (result st) \<noteq> Failed \<and> status (result st) \<noteq> Skipped)
       (or_empty (steps sc))"

definition scenario_count :: "TestFeature list \<Rightarrow> nat" where
  "scenario_count fs = length (allScenarios fs)"

definition passed_count :: "TestFeature list \<Rightarrow> nat" where
  "passed_count fs = length (filter all_steps_passed (allScenarios fs))"





text \<open>
  What the parser maintains of the store: the references of a steps array are distinct
  and lead to objects of the store.
\<close>

definition refs_ok :: "store \<Rightarrow> ref list \<Rightarrow> bool" where
  "refs_ok h rs = (distinct rs \<and> list_all (\<lambda>r. r < length h) rs)"

definition scenario_ok :: "store \<Rightarrow> CucumberScenario \<Rightarrow> bool" where
  "scenario_ok h sc = (case steps sc of None \<Rightarrow> False | Some rs \<Rightarrow> refs_ok h rs)"

definition parser_inv :: "parser_state \<Rightarrow> bool" where
  "parser_inv s = (refs_ok (ps_store s) (backgroundSteps s) \<and>
     list_all (scenario_ok (ps_store s)) (scenarios s) \<and>
     (case currentScenario s of None \<Rightarrow> True | Some sc \<Rightarrow> scenario_ok (ps_store s) sc))"

text \<open>
  A scenario does not overwrite the step object \<open>r\<close>: it does not hold it, or nothing
  truthy is found under its name.
\<close>

definition not_overwritten :: "results_object \<Rightarrow> ref \<Rightarrow> CucumberScenario \<Rightarrow> bool" where
  "not_overwritten tr r sc =
     (r \<in> set (or_empty (steps sc)) \<longrightarrow> object_get tr (scenario_name sc) = Missing)"

text \<open>
  The status and duration of every step of every scenario of a written feature.
\<close>

definition step_outcomes :: "TestFeature option \<Rightarrow> (status \<times> number option) list list" where
  "step_outcomes out =
     (case out of None \<Rightarrow> []
      | Some f \<Rightarrow> map (\<lambda>sc. map (\<lambda>st. (status (result st), duration (result st)))
                               (or_empty (steps sc)))
                       (or_empty (elements f)))"

text \<open>
  The matching of screenshots, in words. A string occurs in another; a name is cleaned
  by lower-casing and trimming; the failed names are the names of the scenarios with a
  failed step; a name matches them when it is one of them, or when its cleaned form
  occurs in the cleaned form of one of them or the other way round. A file makes the
  loop of \<^verbatim>\<open>findScreenshots\<close> throw when it is a \<^verbatim>\<open>.png\<close> file whose test name matches the
  failed names and is the name of a property of \<^verbatim>\<open>Object.prototype\<close>.
\<close>

definition occurs_in :: "string \<Rightarrow> string \<Rightarrow> bool" where
  "occurs_in sub s = (\<exists>a b. s = a @ sub @ b)"

definition clean :: "string \<Rightarrow> string" where
  "clean n = str_trim (toLowerCase n)"

definition failed_names :: "TestFeature list \<Rightarrow> string set" where
  "failed_names cucumberData =
     {scenario_name sc | sc. sc \<in> set (allScenarios cucumberData) \<and>
        (\<exists>st \<in> set (or_empty (steps sc)). status (result st) = Failed)}"

definition matches_failed :: "string \<Rightarrow> string set \<Rightarrow> bool" where
  "matches_failed k names =
     (k \<in> names \<or> (\<exists>n \<in> names. occurs_in (clean k) (clean n) \<or> occurs_in (clean n) (clean k)))"

definition raises :: "string set \<Rightarrow> string \<Rightarrow> bool" where
  "raises names fileName =
     (str_endsWith fileName ''.png'' \<and> testName_of_file fileName \<in> set object_prototype_names \<and>
      matches_failed (testName_of_file fileName) names)"

text \<open>
  A step line, in words: the trimmed line begins with one of the keywords; after the
  keyword comes at least one whitespace character; what follows the whitespace is not
  empty and has no line terminator. The step has the keyword and what follows the
  whitespace as its name.
\<close>

definition step_line :: "string \<Rightarrow> (string \<times> string) option" where
  "step_line t =
     (case filter (str_startsWith t) step_keywords of
        [] \<Rightarrow> None
      | k # _ \<Rightarrow>
          (let rest = drop (length k) t; n = dropWhile isWhiteSpace rest
           in if rest \<noteq> [] \<and> isWhiteSpace (hd rest) \<and> n \<noteq> [] \<and> \<not> list_ex isLineTerminator n
              then Some (k, n) else None))"

text \<open>A string as \<^verbatim>\<open>trim\<close> leaves it: no whitespace at either end.\<close>

definition trimmed :: "string \<Rightarrow> bool" where
  "trimmed t = (t = [] \<or> (\<not> isWhiteSpace (hd t) \<and> \<not> isWhiteSpace (last t)))"

text \<open>The three kinds of line that the parser tests for before it looks for a step.\<close>

definition is_feature_line :: "string \<Rightarrow> bool" where
  "is_feature_line l = str_startsWith (str_trim l) ''Feature:''"

definition is_background_line :: "string \<Rightarrow> bool" where
  "is_background_line l = str_startsWith (str_trim l) ''Background:''"

definition is_scenario_line :: "string \<Rightarrow> bool" where
  "is_scenario_line l = str_startsWith (str_trim l) ''Scenario:''"

text \<open>The steps of the step lines among some lines, in the order of the lines.\<close>

definition line_steps :: "string list \<Rightarrow> step list" where
  "line_steps ls = map (\<lambda>(k, n). new_step k n) (List.map_filter (\<lambda>l. step_line (str_trim l)) ls)"

text \<open>The lines after the last \<^verbatim>\<open>Background:\<close> line, all of them when there is none.\<close>

definition after_last_background :: "string list \<Rightarrow> string list" where
  "after_last_background ls = rev (takeWhile (\<lambda>l. \<not> is_background_line l) (rev ls))"

text \<open>The name on the last \<^verbatim>\<open>Feature:\<close> line, empty when there is none.\<close>

definition declared_name :: "string list \<Rightarrow> string" where
  "declared_name ls =
     (if filter is_feature_line ls = [] then []
      else str_trim (drop (length ''Feature:'') (str_trim (last (filter is_feature_line ls)))))"

text \<open>A line whose trimmed text starts with one of the keywords.\<close>

definition starts_with_keyword :: "string \<Rightarrow> bool" where
  "starts_with_keyword l = list_ex (str_startsWith (str_trim l)) step_keywords"

text \<open>The steps of every scenario of a parsed feature, read from the store.\<close>

definition parsed_steps :: "(CucumberFeature \<times> store) option \<Rightarrow> step list list option" where
  "parsed_steps p = map_option (\<lambda>(f, h).
     map (\<lambda>sc. map (nth h) (or_empty (steps sc))) (or_empty (elements f))) p"

section \<open>Example inputs\<close>


definition passed_step :: step where
  "passed_step = \<lparr>step_keyword = ''When'', step_name = ''an action'',
     result = \<lparr>status = Passed, duration = Some (Fin 1000000000), error_message = None\<rparr>\<rparr>"

definition failed_step :: step where
  "failed_step = \<lparr>step_keyword = ''Then'', step_name = ''an outcome'',
     result = \<lparr>status = Failed, duration = None, error_message = None\<rparr>\<rparr>"

definition scenario_of :: "string \<Rightarrow> step list \<Rightarrow> TestScenario" where
  "scenario_of n sts = \<lparr>scenario_keyword = ''Scenario'', scenario_name = n, steps = Some sts\<rparr>"

definition feature_of :: "TestScenario list \<Rightarrow> TestFeature" where
  "feature_of scs = \<lparr>feature_keyword = ''Feature'', feature_name = ''F'', uri = None,
     elements = Some scs\<rparr>"

text \<open>Forty scenarios of which twenty-three have passed.\<close>

definition twenty_three_of_forty :: "TestFeature list" where
  "twenty_three_of_forty =
     [feature_of (replicate 23 (scenario_of ''p'' [passed_step]) @
                  replicate 17 (scenario_of ''f'' [passed_step, failed_step]))]"

text \<open>
  A feature file given by its lines, and the results of one run given by its tests.
\<close>

definition file_of_lines :: "string list \<Rightarrow> string" where
  "file_of_lines ls = concat (map (\<lambda>l. l @ [CHR 0x0A]) ls)"

definition run_of :: "string \<Rightarrow> CypressTest list \<Rightarrow> CypressResults" where
  "run_of specName ts = \<lparr>runs = Some [\<lparr>spec = Some specName, tests = Some ts\<rparr>]\<rparr>"

definition test_of :: "string \<Rightarrow> string \<Rightarrow> rat \<Rightarrow> string option \<Rightarrow> CypressTest" where
  "test_of n st d e = \<lparr>title = Some [''API Users'', n], state = Some st,
     test_duration = Some (Fin d), displayError = e\<rparr>"

text \<open>
  A file with a Background of one step and a scenario of two steps, with a failed run of
  3000 ms whose error text has the equality-assertion pattern.
\<close>

definition example_path :: string where
  "example_path = ''cypress/e2e/features/users.feature''"

definition example_file :: string where
  "example_file = file_of_lines
     [''Feature: API Users'',
      ''  Background:'',
      ''    Given I am logged in via API'',
      '''',
      ''  Scenario: Create user'',
      ''    When I have new user data'',
      ''    Then the user is created'']"

definition example_results :: CypressResults where
  "example_results = run_of ''cypress/e2e/features/users.feature''
     [test_of ''Create user'' ''failed'' 3000 (Some ''AssertionError: expected 1 to equal 2'')]"

definition six_seconds_results :: CypressResults where
  "six_seconds_results = run_of ''cypress/e2e/features/users.feature''
     [test_of ''Create user'' ''failed'' 6000 (Some ''AssertionError: expected 1 to equal 2'')]"

text \<open>
  A file whose two scenarios share the step of the Background, with three runs of it.
\<close>

definition shared_background_file :: string where
  "shared_background_file = file_of_lines
     [''Feature: API Users'',
      ''  Background:'',
      ''    Given I am logged in via API'',
      ''  Scenario: Get users list'',
      ''    When I request the users list'',
      ''  Scenario: Create user'',
      ''    When I have new user data'']"

definition two_passed_results :: CypressResults where
  "two_passed_results = run_of ''cypress/e2e/features/users.feature''
     [test_of ''Get users list'' ''passed'' 1000 None,
      test_of ''Create user'' ''passed'' 5000 None]"

definition pending_then_passed_results :: CypressResults where
  "pending_then_passed_results = run_of ''cypress/e2e/features/users.feature''
     [test_of ''Get users list'' ''pending'' 0 None,
      test_of ''Create user'' ''passed'' 5000 None]"

definition only_second_results :: CypressResults where
  "only_second_results = run_of ''cypress/e2e/features/users.feature''
     [test_of ''Create user'' ''pending'' 0 None]"

text \<open>
  A scenario with one step of its own, followed by another scenario; and two scenarios
  whose only step is the shared Background step.
\<close>

definition single_step_file :: string where
  "single_step_file = file_of_lines
     [''Feature: API Users'',
      ''  Scenario: Create user'',
      ''    When I have new user data'',
      ''  Scenario: Get users list'',
      ''    When I request the users list'',
      ''    Then I should get a list of users'']"

definition single_step_results :: CypressResults where
  "single_step_results = run_of ''cypress/e2e/features/users.feature''
     [test_of ''Create user'' ''failed'' 3000 (Some ''AssertionError: expected 1 to equal 2''),
      test_of ''Get users list'' ''passed'' 2000 None]"

text \<open>A scenario that has the name of a property of \<^verbatim>\<open>Object.prototype\<close>.\<close>

definition inherited_name_file :: string where
  "inherited_name_file = file_of_lines
     [''Feature: API Users'',
      ''  Scenario: constructor'',
      ''    When I have new user data'',
      ''    Then the user is created'']"

definition background_only_file :: string where
  "background_only_file = file_of_lines
     [''Feature: API Users'',
      ''  Background:'',
      ''    Given I am logged in via API'',
      ''  Scenario: Get users list'',
      ''  Scenario: Create user'']"

definition failed_then_pending_results :: CypressResults where
  "failed_then_pending_results = run_of ''cypress/e2e/features/users.feature''
     [test_of ''Get users list'' ''failed'' 3000 (Some ''AssertionError: expected 1 to equal 2''),
      test_of ''Create user'' ''pending'' 0 None]"

text \<open>
  A failed scenario named \<open>login test\<close> up to case and whitespace; and a passed scenario
  \<open>Login Test\<close> beside a failed one whose name contains that name.
\<close>

definition login_data :: "TestFeature list" where
  "login_data = [feature_of [scenario_of ''  LOGIN test '' [passed_step, failed_step]]]"

definition constructor_data :: "TestFeature list" where
  "constructor_data = [feature_of [scenario_of ''Login Test'' [failed_step],
                                   scenario_of ''constructor'' [failed_step]]]"

definition login_mfa_data :: "TestFeature list" where
  "login_mfa_data = [feature_of [scenario_of ''Login Test'' [passed_step],
                                 scenario_of ''Login Test With MFA'' [failed_step]]]"

text \<open>
  \<^verbatim>\<open>login.feature\<close> of the repository, and two files for the edges of the parser.
\<close>

definition login_feature_file :: string where
  "login_feature_file = file_of_lines
     [''@api @login'',
      ''Feature: API Login'',
      ''  Simple login test based on cypress-realworld-app'',
      '''',
      ''  @smoke'',
      ''  Scenario: Login with valid credentials'',
      ''    Given I have a valid user from database'',
      ''    When I login via API'',
      ''    Then I should get a successful response'',
      ''    And the response should contain user data'']"

definition keyword_prefix_file :: string where
  "keyword_prefix_file = file_of_lines
     [''Feature: API Users'',
      ''  Scenario: Create user'',
      ''    Given'',
      ''    Givenness is no step'',
      ''    When I have new user data'']"

definition unnamed_feature_file :: string where
  "unnamed_feature_file = file_of_lines
     [''Feature:'',
      ''  Scenario: Create user'',
      ''    When I have new user data'']"

section \<open>Properties of the numbers\<close>

declare exp_up.simps [simp del] exp_down.simps [simp del]

lemma exp_up_bounds: "1 \<le> x \<Longrightarrow> 2 ^ exp_up x \<le> x \<and> x < 2 ^ Suc (exp_up x)"
proof (induction x rule: exp_up.induct)
  case (1 x)
  show ?case
  proof (cases "x < 2")
    case True
    then show ?thesis using 1(2) by (simp add: exp_up.simps [of x])
  next
    case False
    then have "1 \<le> x / 2" by simp
    from 1(1) [OF False this] show ?thesis
      using False by (simp add: exp_up.simps [of x] field_simps)
  qed
qed

lemma exp_down_bounds:
  "0 < x \<Longrightarrow> x < 1 \<Longrightarrow> 1 \<le> x * 2 ^ exp_down x \<and> x * 2 ^ exp_down x < 2"
proof (induction x rule: exp_down.induct)
  case (1 x)
  have nx: "\<not> (x \<le> 0 \<or> 1 \<le> x)" using 1(2,3) by simp
  show ?case
  proof (cases "x * 2 < 1")
    case True
    from 1(1) [OF nx _ True] 1(2) show ?thesis
      using nx by (simp add: exp_down.simps [of x] mult.assoc)
  next
    case False
    then have "exp_down (x * 2) = 0" by (simp add: exp_down.simps [of "x * 2"])
    then show ?thesis using False 1(2,3) nx by (simp add: exp_down.simps [of x])
  qed
qed

text \<open>The exponent of a rational that is not zero.\<close>

lemma exponent_bounds:
  assumes "x \<noteq> 0"
  shows "2 powi exponent x \<le> \<bar>x\<bar>" and "\<bar>x\<bar> < 2 powi (exponent x + 1)"
proof -
  have "2 powi exponent x \<le> \<bar>x\<bar> \<and> \<bar>x\<bar> < 2 powi (exponent x + 1)"
  proof (cases "1 \<le> \<bar>x\<bar>")
    case True
    from exp_up_bounds [OF True] show ?thesis
      by (simp add: exponent_def True power_int_def nat_add_distrib)
  next
    case False
    then have x: "0 < \<bar>x\<bar>" "\<bar>x\<bar> < 1" using assms by auto
    define k where "k = exp_down \<bar>x\<bar>"
    from exp_down_bounds [OF x] have b: "1 \<le> \<bar>x\<bar> * 2 ^ k" "\<bar>x\<bar> * 2 ^ k < 2"
      by (simp_all add: k_def)
    have e: "exponent x = - int k" by (simp add: exponent_def False k_def)
    have "k \<noteq> 0" using b x by (cases k) auto
    then obtain j where j: "k = Suc j" by (cases k) auto
    have p1: "(2::rat) powi exponent x = 1 / 2 ^ k"
      by (simp add: e power_int_def field_simps)
    have p2: "(2::rat) powi (exponent x + 1) = 2 / 2 ^ k"
      by (simp add: e j power_int_def field_simps)
    show ?thesis unfolding p1 p2 using b by (simp add: field_simps)
  qed
  then show "2 powi exponent x \<le> \<bar>x\<bar>" and "\<bar>x\<bar> < 2 powi (exponent x + 1)" by auto
qed

lemma round_even_error: "\<bar>of_int (round_even x) - x\<bar> \<le> 1 / 2"
proof -
  have "of_int \<lfloor>x\<rfloor> \<le> x" "x < of_int \<lfloor>x\<rfloor> + 1" by linarith+
  then show ?thesis by (auto simp add: round_even_def Let_def)
qed


lemma pow2_powi: "pow2 q = 2 powi q"
  by (simp add: pow2_def power_int_def field_simps)

lemma pow2_pos: "0 < (2::rat) powi q"
  by (simp add: power_int_def)

lemma pow2_less_imp: "(2::rat) powi a < 2 powi b \<Longrightarrow> a < b"
proof (rule ccontr)
  assume l: "(2::rat) powi a < 2 powi b" and "\<not> a < b"
  then have "b \<le> a" by simp
  then have "(2::rat) powi b \<le> 2 powi a" by (rule power_int_increasing) simp
  with l show False by simp
qed

text \<open>
  In the range of the normal numbers the rounding has a relative error of at most
  \<open>2 ^ - 53\<close>.
\<close>

lemma round_double_error:
  assumes lo: "2 powi (- 1022) \<le> x" and hi: "x < 2 ^ 1023"
  shows "\<exists>r. round_double x = Fin r \<and> \<bar>r - x\<bar> \<le> x / 2 ^ 53"
proof -
  have xpos: "0 < x" using lo pow2_pos [of "- 1022"] by linarith
  then have x0: "x \<noteq> 0" and ax: "\<bar>x\<bar> = x" by auto
  define e where "e = exponent x"
  from exponent_bounds [OF x0] have b: "2 powi e \<le> x" "x < 2 powi (e + 1)"
    by (simp_all add: e_def ax)
  have "(2::rat) powi (- 1022) < 2 powi (e + 1)" using lo b(2) by linarith
  then have e_lo: "- 1022 < e + 1" by (rule pow2_less_imp)
  define q where "q = e - 52"
  have q: "max (exponent x - 52) (- 1074) = q" using e_lo by (simp add: q_def e_def)
  define n where "n = round_even (x / 2 powi q)"
  define r where "r = of_int n * (2::rat) powi q"
  have "\<bar>of_int n - x / 2 powi q\<bar> \<le> 1 / 2" unfolding n_def by (rule round_even_error)
  then have "\<bar>of_int n - x / 2 powi q\<bar> * 2 powi q \<le> 1 / 2 * 2 powi q"
    using pow2_pos [of q] by (simp only: mult_le_cancel_right_pos)
  moreover have "\<bar>of_int n - x / 2 powi q\<bar> * 2 powi q = \<bar>r - x\<bar>"
  proof -
    have "\<bar>of_int n - x / 2 powi q\<bar> * 2 powi q = \<bar>(of_int n - x / 2 powi q) * 2 powi q\<bar>"
      using pow2_pos [of q] by (simp add: abs_mult)
    also have "(of_int n - x / 2 powi q) * 2 powi q = r - x"
      using pow2_pos [of q] by (simp add: r_def field_simps)
    finally show ?thesis .
  qed
  moreover have "1 / 2 * (2::rat) powi q = 2 powi e / 2 ^ 53"
  proof -
    have "(2::rat) powi e = 2 powi (q + 52)" by (simp add: q_def)
    also have "\<dots> = 2 powi q * 2 powi 52" by (rule power_int_add) simp
    finally show ?thesis by simp
  qed
  ultimately have err0: "\<bar>r - x\<bar> \<le> 2 powi e / 2 ^ 53" by simp
  also have "\<dots> \<le> x / 2 ^ 53" using b(1) by (simp add: divide_right_mono)
  finally have err: "\<bar>r - x\<bar> \<le> x / 2 ^ 53" .
  have "x / 2 ^ 53 \<le> x" using xpos by (simp add: field_simps)
  with err have "r \<le> 2 * x" "0 \<le> r" by linarith+
  then have "r < 2 ^ 1024" "- (2 ^ 1024) < r" using hi by simp_all
  then have "round_double x = Fin r"
    using x0 by (simp add: round_double_def pow2_powi q Let_def n_def [symmetric] r_def [symmetric]
                   del: power_int_numeral)
  with err show ?thesis by blast
qed


lemma js_fin:
  "js_add (Fin x) (Fin y) = round_double (x + y)"
  "js_mul (Fin x) (Fin y) = round_double (x * y)"
  "y \<noteq> 0 \<Longrightarrow> js_div (Fin x) (Fin y) = round_double (x / y)"
  by (simp_all add: js_add_def js_mul_def js_div_def)

lemma round_double_0: "round_double 0 = Fin 0"
  by (simp add: round_double_def)


text \<open>
  The percentage of \<open>p\<close> among \<open>t\<close>, computed as \<^verbatim>\<open>Math.round((p / t) * 100)\<close> in doubles,
  is an integer at a distance of at most \<open>1 / 2\<close> from the exact percentage: the two
  roundings move the value by less than \<open>2 ^ - 45\<close>, and an exact percentage that is no
  half-integer is further than that from the nearest half-integer when \<open>t < 2 ^ 44\<close>.
\<close>

lemma percent_nearest:
  fixes p t :: nat
  assumes t: "0 < t" "t < 2 ^ 44" and p: "p \<le> t"
  shows "\<exists>n::int. Math_round (js_mul (js_div (Fin (of_nat p)) (Fin (of_nat t))) (Fin 100)) = Fin (of_int n)
            \<and> \<bar>of_int n - 100 * of_nat p / of_nat t\<bar> \<le> (1 / 2 :: rat)"
proof (cases "p = 0")
  case True
  have "Math_round (js_mul (js_div (Fin (of_nat p)) (Fin (of_nat t))) (Fin 100)) = Fin (of_int 0)"
    using t(1) by (simp add: True js_fin round_double_0 Math_round_def floor_eq_iff)
  then show ?thesis using True by (intro exI [of _ 0]) simp
next
  case False
  define T :: rat where "T = of_nat t"
  define P :: rat where "P = of_nat p"
  define a where "a = P / T"
  have Tpos: "1 \<le> T" using t(1) by (simp add: T_def)
  have Ppos: "1 \<le> P" using False by (simp add: P_def)
  have PT: "P \<le> T" using p by (simp add: P_def T_def)
  have "(of_nat t :: rat) < of_nat (2 ^ 44)" using t(2) by (simp only: of_nat_less_iff)
  then have Thi: "T < 2 ^ 44" by (simp add: T_def)
  have a_lo: "1 / 2 ^ 44 < a"
  proof -
    have "1 / 2 ^ 44 < 1 / T" using Thi Tpos by (simp add: field_simps)
    also have "\<dots> \<le> P / T" using Ppos Tpos by (simp add: divide_right_mono)
    finally show ?thesis by (simp add: a_def)
  qed
  have a_hi: "a \<le> 1" using PT Tpos by (simp add: a_def)
  have small: "(2::rat) powi (- 1022) \<le> 1 / 2 ^ 44" by (simp add: power_int_def field_simps)
  have "\<exists>r. round_double a = Fin r \<and> \<bar>r - a\<bar> \<le> a / 2 ^ 53"
    by (rule round_double_error) (use a_lo a_hi small in auto)
  then obtain fa where fa: "round_double a = Fin fa" "\<bar>fa - a\<bar> \<le> a / 2 ^ 53" by blast
  have fa_err: "\<bar>fa - a\<bar> \<le> 1 / 2 ^ 53"
  proof -
    have "a / 2 ^ 53 \<le> 1 / 2 ^ 53" using a_hi by (simp add: divide_right_mono)
    with fa(2) show ?thesis by linarith
  qed
  define y where "y = fa * 100"
  have fa_lo: "1 / 2 ^ 45 \<le> fa"
  proof -
    have "a / 2 ^ 53 \<le> a / 2" using a_lo by (simp add: field_simps)
    with fa(2) have "a / 2 \<le> fa" by linarith
    with a_lo show ?thesis by simp
  qed
  have fa_hi: "fa \<le> 1 + 1 / 2 ^ 53" using fa_err a_hi by linarith
  have y_lo: "1 / 2 ^ 44 \<le> y" using fa_lo by (simp add: y_def)
  have y_hi: "y \<le> 101" using fa_hi by (simp add: y_def)
  have "\<exists>r. round_double y = Fin r \<and> \<bar>r - y\<bar> \<le> y / 2 ^ 53"
    by (rule round_double_error) (use y_lo y_hi small in auto)
  then obtain fy where fy: "round_double y = Fin fy" "\<bar>fy - y\<bar> \<le> y / 2 ^ 53" by blast
  have fy_err: "\<bar>fy - y\<bar> \<le> 101 / 2 ^ 53"
  proof -
    have "y / 2 ^ 53 \<le> 101 / 2 ^ 53" using y_hi by (simp add: divide_right_mono)
    with fy(2) show ?thesis by linarith
  qed
  define X where "X = 100 * a"
  have "y - X = 100 * (fa - a)" by (simp add: y_def X_def algebra_simps)
  then have "\<bar>y - X\<bar> = \<bar>100 * (fa - a)\<bar>" by (rule arg_cong)
  also have "\<dots> = \<bar>100\<bar> * \<bar>fa - a\<bar>" by (rule abs_mult)
  finally have "\<bar>y - X\<bar> = 100 * \<bar>fa - a\<bar>" by simp
  then have yX: "\<bar>y - X\<bar> \<le> 100 / 2 ^ 53" using fa_err by simp
  have "\<bar>fy - X\<bar> \<le> \<bar>fy - y\<bar> + \<bar>y - X\<bar>" by linarith
  moreover have "(101::rat) / 2 ^ 53 + 100 / 2 ^ 53 < 1 / 2 ^ 45" by simp
  ultimately have fyX: "\<bar>fy - X\<bar> < 1 / 2 ^ 45" using fy_err yX by linarith
  define n where "n = \<lfloor>fy + 1 / 2\<rfloor>"
  have nfy: "\<bar>of_int n - fy\<bar> \<le> 1 / 2"
  proof -
    have "of_int n \<le> fy + 1 / 2" "fy + 1 / 2 < of_int n + 1" unfolding n_def by linarith+
    then show ?thesis by linarith
  qed
  have val: "Math_round (js_mul (js_div (Fin (of_nat p)) (Fin (of_nat t))) (Fin 100)) = Fin (of_int n)"
    using t(1) fa(1) fy(1)
    by (simp add: js_fin Math_round_def a_def P_def T_def y_def n_def)
  have "\<bar>of_int n - X\<bar> \<le> \<bar>of_int n - fy\<bar> + \<bar>fy - X\<bar>" by linarith
  then have near: "\<bar>of_int n - X\<bar> < 1 / 2 + 1 / 2 ^ 45" using nfy fyX by linarith
  have "\<bar>of_int n - X\<bar> \<le> 1 / 2"
  proof (rule ccontr)
    assume "\<not> \<bar>of_int n - X\<bar> \<le> 1 / 2"
    then have far: "1 / 2 < \<bar>of_int n - X\<bar>" by simp
    define m :: int where "m = n * int t - 100 * int p"
    have m: "of_int m = (of_int n - X) * T"
      using Tpos by (simp add: m_def X_def a_def P_def T_def field_simps)
    have "\<bar>of_int m :: rat\<bar> = \<bar>of_int n - X\<bar> * T" using Tpos by (simp add: m abs_mult)
    then have am: "of_int \<bar>m\<bar> = \<bar>of_int n - X\<bar> * T" by simp
    have "T / 2 < \<bar>of_int n - X\<bar> * T" using far Tpos by simp
    then have "of_int (int t) < (of_int (2 * \<bar>m\<bar>) :: rat)" using am by (simp add: T_def)
    then have "int t < 2 * \<bar>m\<bar>" by (simp only: of_int_less_iff)
    then have "int t + 1 \<le> 2 * \<bar>m\<bar>" by simp
    then have "(of_int (int t + 1) :: rat) \<le> of_int (2 * \<bar>m\<bar>)" by (simp only: of_int_le_iff)
    then have "T + 1 \<le> 2 * (\<bar>of_int n - X\<bar> * T)" using am by (simp add: T_def)
    then have "(T + 1) / (2 * T) \<le> \<bar>of_int n - X\<bar>" using Tpos by (simp add: field_simps)
    moreover have "1 / 2 + 1 / 2 ^ 45 < (T + 1) / (2 * T)"
    proof -
      have "1 / 2 ^ 45 < 1 / (2 * T)" using Thi Tpos by (simp add: field_simps)
      moreover have "(T + 1) / (2 * T) = 1 / 2 + 1 / (2 * T)" using Tpos by (simp add: field_simps)
      ultimately show ?thesis by simp
    qed
    ultimately show False using near by linarith
  qed
  then have "\<bar>of_int n - 100 * of_nat p / of_nat t\<bar> \<le> (1 / 2 :: rat)"
    by (simp add: X_def a_def P_def T_def)
  with val show ?thesis by blast
qed

section \<open>Properties of the statistics engine\<close>

lemma fold_stats_step:
  "fold stats_step sts (c, hf, hs) = (c', hf', hs') \<Longrightarrow>
     c_totalScenarios c' = c_totalScenarios c \<and>
     c_passedScenarios c' = c_passedScenarios c \<and>
     c_failedScenarios c' = c_failedScenarios c \<and>
     c_skippedScenarios c' = c_skippedScenarios c \<and>
     hf' = (hf \<or> list_ex (\<lambda>st. status (result st) = Failed) sts) \<and>
     hs' = (hs \<or> list_ex (\<lambda>st. status (result st) = Skipped) sts)"
proof (induction sts arbitrary: c hf hs)
  case Nil
  then show ?case by simp
next
  case (Cons st sts)
  obtain c1 hf1 hs1 where s: "stats_step st (c, hf, hs) = (c1, hf1, hs1)"
    by (cases "stats_step st (c, hf, hs)") auto
  have one: "c_totalScenarios c1 = c_totalScenarios c \<and>
     c_passedScenarios c1 = c_passedScenarios c \<and>
     c_failedScenarios c1 = c_failedScenarios c \<and>
     c_skippedScenarios c1 = c_skippedScenarios c \<and>
     hf1 = (hf \<or> status (result st) = Failed) \<and>
     hs1 = (hs \<or> status (result st) = Skipped)"
    using s
    by (cases "status (result st)") (auto simp: stats_step_def Let_def split: if_splits)
  from Cons.prems s have "fold stats_step sts (c1, hf1, hs1) = (c', hf', hs')" by simp
  from Cons.IH[OF this] one show ?case by auto
qed

lemma stats_scenario_counts:
  "c_totalScenarios (stats_scenario sc c) = c_totalScenarios c + 1 \<and>
   c_passedScenarios (stats_scenario sc c) =
     c_passedScenarios c + (if getScenarioStatus sc = ''passed'' then 1 else 0) \<and>
   c_failedScenarios (stats_scenario sc c) =
     c_failedScenarios c + (if getScenarioStatus sc = ''failed'' then 1 else 0)"
proof -
  obtain c' hf' hs' where f: "fold stats_step (or_empty (steps sc))
      (c\<lparr>c_totalScenarios := c_totalScenarios c + 1\<rparr>, False, False) = (c', hf', hs')"
    by (metis prod_cases3)
  from fold_stats_step[OF f] show ?thesis
    by (simp add: stats_scenario_def Let_def f getScenarioStatus_def)
qed

lemma fold_stats_scenario:
  "c_totalScenarios (fold stats_scenario scs c) = c_totalScenarios c + int (length scs) \<and>
   c_passedScenarios (fold stats_scenario scs c) =
     c_passedScenarios c + int (length (filter (\<lambda>sc. getScenarioStatus sc = ''passed'') scs)) \<and>
   c_failedScenarios (fold stats_scenario scs c) =
     c_failedScenarios c + int (length (filter (\<lambda>sc. getScenarioStatus sc = ''failed'') scs))"
proof (induction scs arbitrary: c)
  case Nil
  then show ?case by simp
next
  case (Cons sc scs)
  show ?case
    using Cons.IH[of "stats_scenario sc c"] stats_scenario_counts[of sc c]
    by simp
qed

lemma fold_stats_feature:
  "c_totalScenarios (fold stats_feature fs c) = c_totalScenarios c + int (length (allScenarios fs)) \<and>
   c_passedScenarios (fold stats_feature fs c) =
     c_passedScenarios c + int (length (filter (\<lambda>sc. getScenarioStatus sc = ''passed'') (allScenarios fs))) \<and>
   c_failedScenarios (fold stats_feature fs c) =
     c_failedScenarios c + int (length (filter (\<lambda>sc. getScenarioStatus sc = ''failed'') (allScenarios fs)))"
proof (induction fs arbitrary: c)
  case Nil
  then show ?case by (simp add: allScenarios_def)
next
  case (Cons f fs)
  show ?case
    using Cons.IH[of "stats_feature f c"] fold_stats_scenario[of "or_empty (elements f)" c]
    by (simp add: allScenarios_def stats_feature_def)
qed

lemma counters0_fields:
  "c_totalScenarios counters0 = 0" "c_passedScenarios counters0 = 0"
  "c_failedScenarios counters0 = 0" "c_totalDuration counters0 = Fin 0"
  by (simp_all add: counters0_def)

lemma generateStatistics_counts:
  "totalScenarios (generateStatistics fs) = int (length (allScenarios fs))"
  "passedScenarios (generateStatistics fs) =
     int (length (filter (\<lambda>sc. getScenarioStatus sc = ''passed'') (allScenarios fs)))"
  "failedScenarios (generateStatistics fs) =
     int (length (filter (\<lambda>sc. getScenarioStatus sc = ''failed'') (allScenarios fs)))"
  using fold_stats_feature[of fs counters0]
  by (simp_all add: generateStatistics_def Let_def counters0_fields)

lemma generateStatistics_passRate:
  "passRate (generateStatistics fs) =
     (if length (allScenarios fs) = 0 then Fin 0
      else Math_round (js_mul
             (js_div (Fin (of_nat (length (filter (\<lambda>sc. getScenarioStatus sc = ''passed'') (allScenarios fs)))))
                     (Fin (of_nat (length (allScenarios fs)))))
             (Fin 100)))"
  using fold_stats_feature[of fs counters0]
  by (simp add: generateStatistics_def Let_def counters0_fields)

lemma getScenarioStatus_passed: "(getScenarioStatus sc = ''passed'') = all_steps_passed sc"
  by (auto simp: getScenarioStatus_def all_steps_passed_def Let_def list_ex_iff list_all_iff)

text \<open>
  C6. \<open>generateStatistics\<close> counts the scenarios of the feature list and those of them
  none of whose steps is failed or skipped. With no scenario the pass rate is 0 and
  nothing is divided. Otherwise the pass rate is \<^verbatim>\<open>Math.round((passed / total) * 100)\<close>
  on these two counts, the quotient and the product each rounded to a double; for fewer
  than \<open>2 ^ 44\<close> scenarios that is an integer at a distance of at most \<open>1 / 2\<close> from the exact
  percentage \<open>100 * passed / total\<close>, that is, a nearest integer percent.
\<close>

theorem passRate_generateStatistics:
  "totalScenarios (generateStatistics fs) = int (scenario_count fs) \<and>
   passedScenarios (generateStatistics fs) = int (passed_count fs) \<and>
   (scenario_count fs = 0 \<longrightarrow> passRate (generateStatistics fs) = Fin 0) \<and>
   (0 < scenario_count fs \<longrightarrow>
      passRate (generateStatistics fs) =
        Math_round (js_mul (js_div (Fin (of_nat (passed_count fs))) (Fin (of_nat (scenario_count fs))))
                           (Fin 100))) \<and>
   (0 < scenario_count fs \<and> scenario_count fs < 2 ^ 44 \<longrightarrow>
      (\<exists>n::int. passRate (generateStatistics fs) = Fin (of_int n) \<and>
         \<bar>of_int n - 100 * of_nat (passed_count fs) / of_nat (scenario_count fs)\<bar> \<le> (1 / 2 :: rat)))"
proof -
  have pc: "passed_count fs =
      length (filter (\<lambda>sc. getScenarioStatus sc = ''passed'') (allScenarios fs))"
    by (simp add: passed_count_def getScenarioStatus_passed)
  have le: "passed_count fs \<le> scenario_count fs"
    by (simp add: passed_count_def scenario_count_def)
  have rate: "0 < scenario_count fs \<Longrightarrow>
      passRate (generateStatistics fs) =
        Math_round (js_mul (js_div (Fin (of_nat (passed_count fs))) (Fin (of_nat (scenario_count fs))))
                           (Fin 100))"
    by (simp add: generateStatistics_passRate pc scenario_count_def)
  have near: "0 < scenario_count fs \<and> scenario_count fs < 2 ^ 44 \<Longrightarrow>
      (\<exists>n::int. passRate (generateStatistics fs) = Fin (of_int n) \<and>
         \<bar>of_int n - 100 * of_nat (passed_count fs) / of_nat (scenario_count fs)\<bar> \<le> (1 / 2 :: rat))"
    using percent_nearest[of "scenario_count fs" "passed_count fs"] le rate by simp
  show ?thesis
    using rate near
    by (simp add: generateStatistics_counts generateStatistics_passRate pc scenario_count_def)
qed

theorem passRate_generateStatistics_witness:
  "totalScenarios (generateStatistics twenty_three_of_forty) = 40 \<and>
   passedScenarios (generateStatistics twenty_three_of_forty) = 23 \<and>
   passRate (generateStatistics twenty_three_of_forty) = Fin 57 \<and>
   passRate (generateStatistics []) = Fin 0"
proof -
  have sc: "scenario_count twenty_three_of_forty = 40" by code_simp
  have pc: "passed_count twenty_three_of_forty = 23" by code_simp
  have e: "scenario_count [] = 0" by (simp add: scenario_count_def allScenarios_def)
  have v: "Math_round (js_mul (js_div (Fin 23) (Fin 40)) (Fin 100)) = Fin 57"
    by code_simp
  show ?thesis
    using passRate_generateStatistics[of twenty_three_of_forty] passRate_generateStatistics[of "[]"]
    by (simp add: sc pc e v)
qed

text \<open>
  The exact percentage of 23 among 40 is 57.5, and the pass rate is 57, not 58: the
  quotient is rounded down to a double, and its product with 100 lies below 57.5.
\<close>

lemma passRate_tie:
  "js_mul (js_div (Fin 23) (Fin 40)) (Fin 100) = Fin (8092405580431359 / 140737488355328) \<and>
   (8092405580431359 / 140737488355328 :: rat) < 115 / 2"
  by code_simp

subsection \<open>Estimated durations\<close>


















section \<open>Properties of the parser's store\<close>

lemma refs_ok_grow: "refs_ok h rs \<Longrightarrow> refs_ok (h @ [x]) rs"
  by (auto simp: refs_ok_def list_all_iff)

lemma refs_ok_new: "refs_ok h rs \<Longrightarrow> refs_ok (h @ [x]) (rs @ [length h])"
  by (auto simp: refs_ok_def list_all_iff)

lemma scenario_ok_grow: "scenario_ok h sc \<Longrightarrow> scenario_ok (h @ [x]) sc"
  by (auto simp: scenario_ok_def refs_ok_grow split: option.splits)

lemma start_scenario_inv: "parser_inv s \<Longrightarrow> parser_inv (start_scenario n s)"
  by (cases "currentScenario s") (simp_all add: parser_inv_def start_scenario_def scenario_ok_def)

lemma push_step_inv: "parser_inv s \<Longrightarrow> parser_inv (push_step st s)"
proof (cases "currentScenario s")
  case None
  assume "parser_inv s"
  with None show ?thesis
    by (simp add: parser_inv_def push_step_def Let_def refs_ok_new list_all_iff scenario_ok_grow)
next
  case (Some sc)
  assume "parser_inv s"
  with Some show ?thesis
    by (auto simp: parser_inv_def push_step_def Let_def refs_ok_new refs_ok_grow list_all_iff
        scenario_ok_grow scenario_ok_def or_empty_def split: option.splits)
qed

lemma set_name_inv: "parser_inv s \<Longrightarrow> parser_inv (s\<lparr>ps_name := n\<rparr>)"
  by (simp add: parser_inv_def split: option.splits)

lemma reset_background_inv: "parser_inv s \<Longrightarrow> parser_inv (s\<lparr>backgroundSteps := []\<rparr>)"
  by (simp add: parser_inv_def refs_ok_def split: option.splits)

lemma parse_line_inv: "parser_inv s \<Longrightarrow> parser_inv (parse_line l s)"
  unfolding parse_line_def Let_def
  by (simp add: start_scenario_inv push_step_inv set_name_inv reset_background_inv
      split: option.splits)

lemma fold_parse_line_inv: "parser_inv s \<Longrightarrow> parser_inv (fold parse_line ls s)"
  by (induction ls arbitrary: s) (auto simp: parse_line_inv)

lemma parser_inv0: "parser_inv parser_state0"
  by (simp add: parser_inv_def parser_state0_def refs_ok_def)

lemma parseFeatureFile_refs:
  assumes "parseFeatureFile content filePath = Some (f, h)"
  shows "\<exists>scs. elements f = Some scs \<and> list_all (scenario_ok h) scs"
proof -
  let ?s = "fold parse_line (str_split CHR 0x0A content) parser_state0"
  have "parser_inv ?s" by (rule fold_parse_line_inv[OF parser_inv0])
  with assms show ?thesis
    by (auto simp: parseFeatureFile_def Let_def parser_inv_def split: if_splits option.splits)
qed


lemma length_set_result: "length (set_result r u h) = length h"
  by (simp add: set_result_def)

lemma nth_set_result:
  "set_result r u h ! r' =
     (if r' = r \<and> r < length h then (h ! r)\<lparr>result := u (result (h ! r))\<rparr> else h ! r')"
  by (cases "r < length h") (simp_all add: set_result_def nth_list_update list_update_beyond)

lemma length_mark:
  "length (mark_passed d n r h) = length h"
  "length (mark_skipped r h) = length h"
  "length (mark_failed d e r h) = length h"
  "length (mark_by_index i d e n ir h) = length h"
  by (simp_all add: mark_passed_def mark_skipped_def mark_failed_def mark_by_index_def
      length_set_result split: prod.splits)

lemma mark_frame:
  "r' \<noteq> r \<Longrightarrow> mark_passed d n r h ! r' = h ! r'"
  "r' \<noteq> r \<Longrightarrow> mark_skipped r h ! r' = h ! r'"
  "r' \<noteq> r \<Longrightarrow> mark_failed d e r h ! r' = h ! r'"
  "r' \<noteq> snd ir \<Longrightarrow> mark_by_index i d e n ir h ! r' = h ! r'"
  by (cases ir; simp add: mark_passed_def mark_skipped_def mark_failed_def mark_by_index_def
      nth_set_result)+

lemma fold_mark_passed_frame:
  "r' \<notin> set rs \<Longrightarrow> fold (mark_passed d n) rs h ! r' = h ! r'"
  by (induction rs arbitrary: h) (simp_all add: mark_frame)

lemma fold_mark_skipped_frame:
  "r' \<notin> set rs \<Longrightarrow> fold mark_skipped rs h ! r' = h ! r'"
  by (induction rs arbitrary: h) (simp_all add: mark_frame)

lemma fold_mark_by_index_frame:
  "r' \<notin> snd ` set ps \<Longrightarrow> fold (mark_by_index i d e n) ps h ! r' = h ! r'"
  by (induction ps arbitrary: h) (simp_all add: mark_frame)

lemma length_fold_mark:
  "length (fold (mark_passed d n) rs h) = length h"
  "length (fold mark_skipped rs h) = length h"
  "length (fold (mark_by_index i d e n) ps h) = length h"
  by (induction rs arbitrary: h, simp_all add: length_mark, induction rs arbitrary: h,
      simp_all add: length_mark, induction ps arbitrary: h, simp_all add: length_mark)

lemma length_merge_scenario: "length (merge_scenario tr sc h) = length h"
  by (simp add: merge_scenario_def merge_steps_def length_fold_mark
      split: option.splits looked_up.splits)

lemma snd_set_enumerate: "snd ` set (enumerate n xs) = set xs"
  by (induction xs arbitrary: n) auto

lemma merge_scenario_frame:
  "r \<notin> set (or_empty (steps sc)) \<Longrightarrow> merge_scenario tr sc h ! r = h ! r"
  by (simp add: merge_scenario_def merge_steps_def or_empty_def fold_mark_passed_frame
      fold_mark_skipped_frame fold_mark_by_index_frame snd_set_enumerate
      split: option.splits looked_up.splits)

lemma merge_scenario_unmatched:
  "object_get tr (scenario_name sc) = Missing \<Longrightarrow> merge_scenario tr sc h = h"
  by (simp add: merge_scenario_def split: option.splits)


section \<open>The correlator on steps that no later scenario overwrites\<close>

text \<open>
  A scenario with a run record writes every step it holds; a step keeps what a scenario
  wrote when no later scenario under whose name something is found holds it too. For such steps a passed
  scenario leaves the status passed and the even share of its duration, a pending one
  the status skipped and the duration 0, and a step that no scenario with a run record
  holds stays as the parser made it.
\<close>

lemma fold_merge_scenario_frame:
  "list_all (not_overwritten tr r) scs \<Longrightarrow> fold (merge_scenario tr) scs h ! r = h ! r"
proof (induction scs arbitrary: h)
  case Nil
  then show ?case by simp
next
  case (Cons sc scs)
  then have "merge_scenario tr sc h ! r = h ! r"
    by (cases "r \<in> set (or_empty (steps sc))")
       (simp_all add: not_overwritten_def merge_scenario_unmatched merge_scenario_frame)
  with Cons show ?case by simp
qed

lemma length_fold_merge_scenario:
  "length (fold (merge_scenario tr) scs h) = length h"
  by (induction scs arbitrary: h) (simp_all add: length_merge_scenario)

lemma fold_mark_passed_nth:
  "r \<in> set rs \<Longrightarrow> r < length h \<Longrightarrow>
     result (fold (mark_passed d n) rs h ! r) =
       (result (h ! r))\<lparr>status := Passed,
          duration := Some (js_div (to_number d) (Fin (of_nat n)))\<rparr>"
proof (induction rs arbitrary: h)
  case Nil
  then show ?case by simp
next
  case (Cons a rs)
  show ?case
  proof (cases "r \<in> set rs")
    case True
    with Cons.IH[of "mark_passed d n a h"] Cons.prems(2) show ?thesis
      by (cases "r = a") (simp_all add: mark_passed_def nth_set_result length_set_result)
  next
    case False
    with Cons.prems have "r = a" by simp
    with False Cons.prems(2) show ?thesis
      by (simp add: fold_mark_passed_frame) (simp add: mark_passed_def nth_set_result)
  qed
qed

lemma fold_mark_skipped_nth:
  "r \<in> set rs \<Longrightarrow> r < length h \<Longrightarrow>
     result (fold mark_skipped rs h ! r) =
       (result (h ! r))\<lparr>status := Skipped, duration := Some (Fin 0)\<rparr>"
proof (induction rs arbitrary: h)
  case Nil
  then show ?case by simp
next
  case (Cons a rs)
  show ?case
  proof (cases "r \<in> set rs")
    case True
    with Cons.IH[of "mark_skipped a h"] Cons.prems(2) show ?thesis
      by (cases "r = a") (simp_all add: mark_skipped_def nth_set_result length_set_result)
  next
    case False
    with Cons.prems have "r = a" by simp
    with False Cons.prems(2) show ?thesis
      by (simp add: fold_mark_skipped_frame) (simp add: mark_skipped_def nth_set_result)
  qed
qed

lemma merged_step:
  assumes parse: "parseFeatureFile content featureFile = Some (f, h)"
    and els: "elements f = Some (pre @ sc # post)"
    and sts: "steps sc = Some refs" and r: "r \<in> set refs"
    and later: "list_all (not_overwritten tr r) post"
  shows "r < length h" and
    "mergeFeatureWithResults f tr h ! r =
       merge_scenario tr sc (fold (merge_scenario tr) pre h) ! r"
proof -
  from parseFeatureFile_refs[OF parse] els have "scenario_ok h sc" by simp
  with sts r show "r < length h" by (simp add: scenario_ok_def refs_ok_def list_all_iff)
  show "mergeFeatureWithResults f tr h ! r =
       merge_scenario tr sc (fold (merge_scenario tr) pre h) ! r"
    by (simp add: mergeFeatureWithResults_def els or_empty_def fold_merge_scenario_frame[OF later])
qed

lemma passed_scenario_unshared:
  assumes parse: "parseFeatureFile content featureFile = Some (f, h)"
    and els: "elements f = Some (pre @ sc # post)"
    and sts: "steps sc = Some refs" and r: "r \<in> set refs"
    and later: "list_all (not_overwritten tr r) post"
    and res: "object_get tr (scenario_name sc) = Found res" "tr_status res = ''passed''"
  shows "status (result (mergeFeatureWithResults f tr h ! r)) = Passed \<and>
     duration (result (mergeFeatureWithResults f tr h ! r)) =
       Some (js_div (tr_duration res) (Fin (of_nat (length refs))))"
  using merged_step[OF parse els sts r later] r
  by (simp add: merge_scenario_def merge_steps_def sts res fold_mark_passed_nth
      length_fold_merge_scenario to_number_def)

lemma pending_scenario_unshared:
  assumes parse: "parseFeatureFile content featureFile = Some (f, h)"
    and els: "elements f = Some (pre @ sc # post)"
    and sts: "steps sc = Some refs" and r: "r \<in> set refs"
    and later: "list_all (not_overwritten tr r) post"
    and res: "object_get tr (scenario_name sc) = Found res" "tr_status res = ''skipped''"
  shows "status (result (mergeFeatureWithResults f tr h ! r)) = Skipped \<and>
     duration (result (mergeFeatureWithResults f tr h ! r)) = Some (Fin 0)"
  using merged_step[OF parse els sts r later] r
  by (simp add: merge_scenario_def merge_steps_def sts res fold_mark_skipped_nth
      length_fold_merge_scenario)

lemma unmatched_scenario_unshared:
  assumes els: "elements f = Some scs"
    and r: "list_all (not_overwritten tr r) scs"
  shows "mergeFeatureWithResults f tr h ! r = h ! r"
  by (simp add: mergeFeatureWithResults_def els or_empty_def fold_merge_scenario_frame[OF r])

section \<open>The end-to-end scenario\<close>

lemma parse_example:
  "parseFeatureFile example_file example_path =
     Some (\<lparr>feature_keyword = ''Feature'', feature_name = ''API Users'',
             uri = Some example_path,
             elements = Some [\<lparr>scenario_keyword = ''Scenario'', scenario_name = ''Create user'',
                                steps = Some [0, 1, 2]\<rparr>]\<rparr>,
           [new_step ''Given'' ''I am logged in via API'',
            new_step ''When'' ''I have new user data'',
            new_step ''Then'' ''the user is created''])"
  by code_simp

lemma str_includes_nonempty: "str_includes e p \<Longrightarrow> p \<noteq> [] \<Longrightarrow> e \<noteq> []"
  by (cases e) auto

lemma object_get_set: "object_get (object_set k v empty_object) k = Found v"
  by (simp add: object_get_def object_set_def empty_object_def)

lemma getTestResultsForFeature_one:
  assumes "runs results = Some [run]" "spec run = Some specName"
    "str_includes specName (basename featureFile)" "tests run = Some [t]"
  shows "object_get (getTestResultsForFeature results featureFile) (last_title t) =
     Found \<lparr>tr_status = (if state t = Some ''passed'' then ''passed''
                else if state t = Some ''pending'' then ''skipped'' else ''failed''),
            tr_duration = nanoseconds (test_duration t),
            tr_error_message = displayError t\<rparr>"
  using assms
  by (simp add: getTestResultsForFeature_def record_run_def record_test_def or_empty_def Let_def
      object_get_set)

lemma passRate_none_passed:
  "Math_round (js_mul (js_div (Fin 0) (Fin 1)) (Fin 100)) = Fin 0"
  by (simp add: js_fin round_double_0 Math_round_def floor_eq_iff)

lemma three_seconds:
  "nanoseconds (Some (Fin 3000)) = Fin 3000000000"
  "js_div (Fin 3000000000) (Fin 3) = Fin 1000000000"
  by code_simp+

text \<open>
  C1. A feature file that parses to one scenario of three steps (a background step and
  the two steps of the scenario), with one run record for it of state failed, a duration
  of \<open>d\<close> ms and an error text that contains \<open>expected 1 to equal 2\<close>: in the feature
  written to the JSON, step 0 is passed with a third of the duration of the scenario,
  step 1 is failed with the duration of the scenario, which is \<open>d\<close> in nanoseconds, and
  with the error text, and step 2 is skipped with duration 0; the statistics count one
  failed scenario and a pass rate of 0. For \<open>d = 3000\<close> the duration of step 1 is
  3000000000 ns and that of step 0 is 1000000000 ns.
\<close>

theorem failed_scenario_end_to_end:
  assumes chars: "ascii content"
    and parse: "parseFeatureFile content featureFile = Some (f, h)"
    and els: "elements f = Some [sc]"
    and sts: "steps sc = Some [r0, r1, r2]"
    and run: "runs results = Some [run]" "spec run = Some specName"
      "str_includes specName (basename featureFile)" "tests run = Some [t]"
    and test: "last_title t = scenario_name sc" "state t = Some ''failed''"
      "test_duration t = Some d" "displayError t = Some e"
    and err: "str_includes e ''expected 1 to equal 2''"
  shows "\<exists>out sc' s0 s1 s2.
     featureWithResults results content featureFile = Some out \<and>
     elements out = Some [sc'] \<and> steps sc' = Some [s0, s1, s2] \<and>
     status (result s0) = Passed \<and>
     duration (result s0) = json_number (Some (js_div (nanoseconds (Some d)) (Fin 3))) \<and>
     status (result s1) = Failed \<and>
     duration (result s1) = json_number (Some (nanoseconds (Some d))) \<and>
     error_message (result s1) = Some e \<and>
     status (result s2) = Skipped \<and> duration (result s2) = Some (Fin 0) \<and>
     failedScenarios (generateStatistics [out]) = 1 \<and>
     passRate (generateStatistics [out]) = Fin 0 \<and>
     (d = Fin 3000 \<longrightarrow>
        duration (result s0) = Some (Fin 1000000000) \<and>
        duration (result s1) = Some (Fin 3000000000))"
proof -
  from parseFeatureFile_refs[OF parse] els have "scenario_ok h sc" by simp
  with sts have d: "r0 \<noteq> r1" "r0 \<noteq> r2" "r1 \<noteq> r2" and
    l: "r0 < length h" "r1 < length h" "r2 < length h"
    by (simp_all add: scenario_ok_def refs_ok_def)
  have e: "truthy_string (Some e)"
    using str_includes_nonempty[OF err] by (simp add: truthy_string_def)
  define D where "D = nanoseconds (Some d)"
  have tr: "object_get (getTestResultsForFeature results featureFile) (scenario_name sc) =
      Found \<lparr>tr_status = ''failed'', tr_duration = D, tr_error_message = Some e\<rparr>"
    using getTestResultsForFeature_one[OF run] test by (simp add: D_def)
  have idx: "detectFailedStepFromError (Some e) [r0, r1, r2] = 1"
    using e err by (simp add: detectFailedStepFromError_def)
  define h' where "h' = mergeFeatureWithResults f (getTestResultsForFeature results featureFile) h"
  have h': "h' = mark_skipped r2 (mark_failed (Some D) (Some e) r1
      (mark_passed (Some D) (length [r0, r1, r2]) r0 h))"
    unfolding h'_def
    by (simp add: mergeFeatureWithResults_def els or_empty_def merge_scenario_def merge_steps_def
        sts tr idx enumerate_simps mark_by_index_def)
  have s0: "status (result (h' ! r0)) = Passed"
      "duration (result (h' ! r0)) = Some (js_div D (Fin 3))"
    and s1: "status (result (h' ! r1)) = Failed" "duration (result (h' ! r1)) = Some D"
      "error_message (result (h' ! r1)) = Some e"
    and s2: "status (result (h' ! r2)) = Skipped" "duration (result (h' ! r2)) = Some (Fin 0)"
    using d l e
    by (simp_all add: h' mark_skipped_def mark_failed_def mark_passed_def nth_set_result
        length_set_result to_number_def)
  define out where "out = serialize_feature h' f"
  define sc' where "sc' = serialize_scenario h' sc"
  define t0 where "t0 = serialize_step (h' ! r0)"
  define t1 where "t1 = serialize_step (h' ! r1)"
  define t2 where "t2 = serialize_step (h' ! r2)"
  have out: "featureWithResults results content featureFile = Some out"
    by (simp add: featureWithResults_def parse out_def h'_def)
  have oe: "elements out = Some [sc']"
    by (simp add: out_def sc'_def serialize_feature_def els)
  have os: "steps sc' = Some [t0, t1, t2]"
    by (simp add: sc'_def serialize_scenario_def sts t0_def t1_def t2_def)
  have u0: "status (result t0) = Passed"
      "duration (result t0) = json_number (Some (js_div D (Fin 3)))"
    and u1: "status (result t1) = Failed" "duration (result t1) = json_number (Some D)"
      "error_message (result t1) = Some e"
    and u2: "status (result t2) = Skipped" "duration (result t2) = Some (Fin 0)"
    by (simp_all add: t0_def t1_def t2_def serialize_step_def s0 s1 s2 json_number_def)
  have st: "getScenarioStatus sc' = ''failed''"
    by (simp add: getScenarioStatus_def os or_empty_def u0 u1 u2)
  have all: "allScenarios [out] = [sc']"
    by (simp add: allScenarios_def oe or_empty_def)
  have f1: "failedScenarios (generateStatistics [out]) = 1"
    by (simp add: generateStatistics_counts all st)
  have p0: "passRate (generateStatistics [out]) = Fin 0"
    by (simp add: generateStatistics_passRate all st passRate_none_passed)
  have i: "d = Fin 3000 \<longrightarrow>
        duration (result t0) = Some (Fin 1000000000) \<and>
        duration (result t1) = Some (Fin 3000000000)"
    by (simp add: u0 u1 D_def three_seconds json_number_def)
  from out oe os u0 u1 u2 f1 p0 i show ?thesis unfolding D_def by blast
qed

theorem failed_scenario_end_to_end_witness:
  "\<exists>out sc' s0 s1 s2.
     featureWithResults example_results example_file example_path = Some out \<and>
     elements out = Some [sc'] \<and> steps sc' = Some [s0, s1, s2] \<and>
     status (result s0) = Passed \<and> duration (result s0) = Some (Fin 1000000000) \<and>
     status (result s1) = Failed \<and> duration (result s1) = Some (Fin 3000000000) \<and>
     error_message (result s1) = Some ''AssertionError: expected 1 to equal 2'' \<and>
     status (result s2) = Skipped \<and> duration (result s2) = Some (Fin 0) \<and>
     failedScenarios (generateStatistics [out]) = 1 \<and>
     passRate (generateStatistics [out]) = Fin 0"
proof -
  let ?sc = "\<lparr>scenario_keyword = ''Scenario'', scenario_name = ''Create user'',
      steps = Some [0, 1, 2]\<rparr> :: CucumberScenario"
  let ?t = "test_of ''Create user'' ''failed'' 3000 (Some ''AssertionError: expected 1 to equal 2'')"
  let ?run = "\<lparr>spec = Some ''cypress/e2e/features/users.feature'', tests = Some [?t]\<rparr>"
  have a: "elements \<lparr>feature_keyword = ''Feature'', feature_name = ''API Users'',
      uri = Some example_path, elements = Some [?sc]\<rparr> = Some [?sc]"
    by simp
  have b: "steps ?sc = Some [0, 1, 2]" by simp
  have c: "runs example_results = Some [?run]"
    by (simp add: example_results_def run_of_def)
  have d: "spec ?run = Some ''cypress/e2e/features/users.feature''" "tests ?run = Some [?t]"
    by simp_all
  have e: "str_includes ''cypress/e2e/features/users.feature'' (basename example_path)"
    by code_simp
  have f: "last_title ?t = scenario_name ?sc" "state ?t = Some ''failed''"
    "test_duration ?t = Some (Fin 3000)"
    "displayError ?t = Some ''AssertionError: expected 1 to equal 2''"
    by (simp_all add: test_of_def last_title_def)
  have g: "str_includes ''AssertionError: expected 1 to equal 2'' ''expected 1 to equal 2''"
    by code_simp
  have k: "ascii example_file" by code_simp
  from failed_scenario_end_to_end[OF k parse_example a b c d(1) e d(2) f g]
  show ?thesis by blast
qed

text \<open>
  The same file with a run of 6000 ms: the background step gets 2000000000 ns, which is
  not the parser's placeholder.
\<close>

lemma failed_scenario_six_seconds:
  "step_outcomes (featureWithResults six_seconds_results example_file example_path) =
     [[(Passed, Some (Fin 2000000000)), (Failed, Some (Fin 6000000000)), (Skipped, Some (Fin 0))]]"
  by code_simp

section \<open>Step objects shared between scenarios\<close>

text \<open>
  C2. Two scenarios of one file share the step object of the Background. Both runs are
  passed, the first of 1000 ms and two steps, so each of its steps should have the
  duration 500000000 ns; its Background step has 2500000000 ns, the share of the second
  scenario (5000 ms over two steps), which was assigned last.
\<close>

theorem passed_scenario_shared_background:
  "step_outcomes (featureWithResults two_passed_results shared_background_file example_path) =
     [[(Passed, Some (Fin 2500000000)), (Passed, Some (Fin 500000000))],
      [(Passed, Some (Fin 2500000000)), (Passed, Some (Fin 2500000000))]]"
  by code_simp

text \<open>
  C3. The first scenario is pending and the second passed: the Background step of the
  pending scenario is written as passed with the duration share of the second scenario,
  not as skipped with duration 0.
\<close>

theorem pending_scenario_shared_background:
  "step_outcomes (featureWithResults pending_then_passed_results shared_background_file example_path) =
     [[(Passed, Some (Fin 2500000000)), (Skipped, Some (Fin 0))],
      [(Passed, Some (Fin 2500000000)), (Passed, Some (Fin 2500000000))]]"
  by code_simp

text \<open>
  C4. The first scenario has no run record and the second is pending: the Background
  step of the unmatched scenario is written as skipped with duration 0; it does not keep
  the parser's status passed and placeholder duration.
\<close>

theorem unmatched_scenario_shared_background:
  "step_outcomes (featureWithResults only_second_results shared_background_file example_path) =
     [[(Skipped, Some (Fin 0)), (Passed, Some (Fin 1000000000))],
      [(Skipped, Some (Fin 0)), (Skipped, Some (Fin 0))]] \<and>
   object_get (getTestResultsForFeature only_second_results example_path) ''Get users list'' =
     Missing"
  by code_simp

text \<open>
  A scenario without a run record whose name is the name of a property of
  \<^verbatim>\<open>Object.prototype\<close> is not left alone either: \<^verbatim>\<open>testResults[scenario.name]\<close> is a
  function, the guard lets it pass, and the scenario is treated as failed at its last
  step, with durations \<^verbatim>\<open>NaN\<close> and \<^verbatim>\<open>undefined\<close>, which the JSON does not keep.
\<close>

lemma inherited_name_scenario:
  "step_outcomes (featureWithResults only_second_results inherited_name_file example_path) =
     [[(Passed, None), (Failed, None)]] \<and>
   object_get (getTestResultsForFeature only_second_results example_path) ''constructor'' =
     Foreign"
  by code_simp

section \<open>The equality-assertion pattern on a scenario of one step\<close>

lemma detect_equality_pattern:
  assumes "str_includes e ''expected 1 to equal 2'' \<or> str_includes e ''expect(1).to.eq(2)''"
  shows "detectFailedStepFromError (Some e) sts = 1"
proof -
  from assms have "e \<noteq> []" by (auto dest: str_includes_nonempty)
  with assms show ?thesis
    by (simp add: detectFailedStepFromError_def truthy_string_def)
qed

text \<open>
  For an error text that contains \<open>expected 1 to equal 2\<close> or \<open>expect(1).to.eq(2)\<close>,
  \<open>detectFailedStepFromError\<close> returns 1 whatever the steps are. So for a scenario of
  exactly one step with a failed run record and such an error text, whose step object no
  later scenario overwrites, the step is written as passed with the whole duration of the
  scenario, and the scenario has the status passed.
\<close>

lemma single_step_failure_unshared:
  assumes parse: "parseFeatureFile content featureFile = Some (f, h)"
    and els: "elements f = Some (pre @ sc # post)"
    and sts: "steps sc = Some [r]"
    and later: "list_all (not_overwritten (getTestResultsForFeature results featureFile) r) post"
    and res: "object_get (getTestResultsForFeature results featureFile) (scenario_name sc) = Found res"
      "tr_status res = ''failed''" "tr_error_message res = Some e"
    and err: "str_includes e ''expected 1 to equal 2'' \<or> str_includes e ''expect(1).to.eq(2)''"
  shows "detectFailedStepFromError (Some e) (sts :: ref list) = 1 \<and>
    (\<exists>out sc' s. featureWithResults results content featureFile = Some out \<and>
       or_empty (elements out) ! length pre = sc' \<and> steps sc' = Some [s] \<and>
       status (result s) = Passed \<and>
       duration (result s) = json_number (Some (js_div (tr_duration res) (Fin 1))) \<and>
       getScenarioStatus sc' = ''passed'')"
proof
  show "detectFailedStepFromError (Some e) (sts :: ref list) = 1"
    by (rule detect_equality_pattern[OF err])
next
  let ?tr = "getTestResultsForFeature results featureFile"
  from parseFeatureFile_refs[OF parse] els have "scenario_ok h sc" by simp
  with sts have l: "r < length h" by (simp add: scenario_ok_def refs_ok_def)
  define h1 where "h1 = fold (merge_scenario ?tr) pre h"
  define h2 where "h2 = merge_scenario ?tr sc h1"
  define h' where "h' = mergeFeatureWithResults f ?tr h"
  have h': "h' = fold (merge_scenario ?tr) post h2"
    by (simp add: h'_def h2_def h1_def mergeFeatureWithResults_def els or_empty_def)
  have l1: "r < length h1" using l by (simp add: h1_def length_fold_merge_scenario)
  have "h2 = mark_passed (Some (tr_duration res)) 1 r h1"
    by (simp add: h2_def merge_scenario_def merge_steps_def sts res
        detect_equality_pattern[OF err] enumerate_simps mark_by_index_def)
  then have h2: "status (result (h2 ! r)) = Passed"
    "duration (result (h2 ! r)) = Some (js_div (tr_duration res) (Fin 1))"
    using l1 by (simp_all add: mark_passed_def nth_set_result to_number_def)
  have "h' ! r = h2 ! r"
    unfolding h' by (rule fold_merge_scenario_frame[OF later])
  with h2 have s: "status (result (h' ! r)) = Passed"
    "duration (result (h' ! r)) = Some (js_div (tr_duration res) (Fin 1))" by simp_all
  define out where "out = serialize_feature h' f"
  define sc' where "sc' = serialize_scenario h' sc"
  define t where "t = serialize_step (h' ! r)"
  have out: "featureWithResults results content featureFile = Some out"
    by (simp add: featureWithResults_def parse out_def h'_def)
  have oe: "or_empty (elements out) ! length pre = sc'"
    by (simp add: out_def sc'_def serialize_feature_def els or_empty_def nth_append)
  have os: "steps sc' = Some [t]"
    by (simp add: sc'_def serialize_scenario_def sts t_def)
  have u: "status (result t) = Passed"
    "duration (result t) = json_number (Some (js_div (tr_duration res) (Fin 1)))"
    by (simp_all add: t_def serialize_step_def s)
  have st: "getScenarioStatus sc' = ''passed''"
    by (simp add: getScenarioStatus_def os or_empty_def u)
  from out oe os u st
  show "\<exists>out sc' s. featureWithResults results content featureFile = Some out \<and>
       or_empty (elements out) ! length pre = sc' \<and> steps sc' = Some [s] \<and>
       status (result s) = Passed \<and>
       duration (result s) = json_number (Some (js_div (tr_duration res) (Fin 1))) \<and>
       getScenarioStatus sc' = ''passed''"
    by blast
qed

text \<open>
  A scenario with one step of its own, failed after 3000 ms with the pattern in the
  error text: the step is written as passed with 3000000000 ns.
\<close>

lemma single_step_own_step:
  "step_outcomes (featureWithResults single_step_results single_step_file example_path) =
     [[(Passed, Some (Fin 3000000000))],
      [(Passed, Some (Fin 1000000000)), (Passed, Some (Fin 1000000000))]]"
  by code_simp

text \<open>
  C9. Two scenarios whose only step is the shared step of the Background. The first has a
  failed run record of 3000 ms whose error text contains \<open>expected 1 to equal 2\<close>, for
  which \<open>detectFailedStepFromError\<close> returns 1, so its sole step should be marked passed
  with 3000000000 ns; the second is pending. The step of the first scenario is written as
  skipped with duration 0, as the second scenario left it.
\<close>

theorem single_step_failure_shared_background:
  "step_outcomes (featureWithResults failed_then_pending_results background_only_file example_path) =
     [[(Skipped, Some (Fin 0))], [(Skipped, Some (Fin 0))]] \<and>
   object_get (getTestResultsForFeature failed_then_pending_results example_path) ''Get users list'' =
     Found \<lparr>tr_status = ''failed'', tr_duration = Fin 3000000000,
            tr_error_message = Some ''AssertionError: expected 1 to equal 2''\<rparr> \<and>
   detectFailedStepFromError (Some ''AssertionError: expected 1 to equal 2'') [0 :: ref] = 1"
  by code_simp

section \<open>Screenshots and failed scenarios\<close>

lemma str_includes_refl: "str_includes s s"
  by (cases s) (simp_all add: str_startsWith_def)

lemma str_startsWith_iff: "str_startsWith s p = (\<exists>b. s = p @ b)"
proof
  assume "str_startsWith s p"
  then have "s = p @ drop (length p) s"
    by (metis append_take_drop_id str_startsWith_def)
  then show "\<exists>b. s = p @ b" ..
next
  assume "\<exists>b. s = p @ b"
  then show "str_startsWith s p" by (auto simp: str_startsWith_def)
qed

lemma str_includes_iff: "str_includes s sub = occurs_in sub s"
proof (induction s)
  case Nil
  then show ?case by (auto simp: occurs_in_def)
next
  case (Cons c cs)
  have "occurs_in sub (c # cs) = ((\<exists>b. c # cs = sub @ b) \<or> occurs_in sub cs)"
  proof
    assume "occurs_in sub (c # cs)"
    then obtain a b where ab: "c # cs = a @ sub @ b" by (auto simp: occurs_in_def)
    show "(\<exists>b. c # cs = sub @ b) \<or> occurs_in sub cs"
    proof (cases a)
      case Nil
      with ab show ?thesis by auto
    next
      case (Cons x a')
      with ab have "cs = a' @ sub @ b" by simp
      then show ?thesis by (auto simp: occurs_in_def)
    qed
  next
    assume "(\<exists>b. c # cs = sub @ b) \<or> occurs_in sub cs"
    then show "occurs_in sub (c # cs)"
    proof
      assume "\<exists>b. c # cs = sub @ b"
      then obtain b where "c # cs = [] @ sub @ b" by auto
      then show ?thesis unfolding occurs_in_def by blast
    next
      assume "occurs_in sub cs"
      then obtain a b where "cs = a @ sub @ b" by (auto simp: occurs_in_def)
      then have "c # cs = (c # a) @ sub @ b" by simp
      then show ?thesis unfolding occurs_in_def by blast
    qed
  qed
  with Cons show ?case by (simp add: str_startsWith_iff)
qed

lemma isScenarioFailed_iff: "isScenarioFailed k xs = matches_failed k (set xs)"
  by (auto simp: isScenarioFailed_def matches_failed_def Let_def list_ex_iff str_includes_iff
        clean_def)

lemma getScenarioStatus_failed:
  "(getScenarioStatus sc = ''failed'') =
     (\<exists>st \<in> set (or_empty (steps sc)). status (result st) = Failed)"
  by (simp add: getScenarioStatus_def Let_def list_ex_iff)

lemma failed_names_eq: "failed_names data = set (failedScenarios_of data)"
  by (auto simp: failed_names_def failedScenarios_of_def allScenarios_def
        getScenarioStatus_failed)

lemma testName_login: "testName_of_file ''login_test_failed.png'' = ''Login Test''"
  by code_simp

lemma login_clean: "clean ''Login Test'' = ''login test''"
  by code_simp

lemma login_png: "str_endsWith ''login_test_failed.png'' ''.png''"
  by code_simp

lemma login_path:
  "replace_char (CHR 0x5C) CHR ''/'' ''login_test_failed.png'' = ''login_test_failed.png''"
  by code_simp

lemma login_not_inherited: "''Login Test'' \<notin> set object_prototype_names"
  by code_simp

lemma occurs_in_refl: "occurs_in s s"
  unfolding occurs_in_def by (rule exI[of _ "[]"], rule exI[of _ "[]"]) simp

lemma matches_failed_login:
  "\<exists>n \<in> names. clean n = ''login test'' \<Longrightarrow> matches_failed ''Login Test'' names"
  unfolding matches_failed_def login_clean
  by (metis occurs_in_refl)

lemma screenshot_file_keeps:
  "m k = Some ps \<Longrightarrow> p \<in> set ps \<Longrightarrow> screenshot_file fset fl m = Some m' \<Longrightarrow>
     \<exists>ps'. m' k = Some ps' \<and> p \<in> set ps'"
  by (auto simp: screenshot_file_def Let_def split: if_splits option.splits)

lemma screenshot_files_keeps:
  "m k = Some ps \<Longrightarrow> p \<in> set ps \<Longrightarrow>
     \<exists>ps'. screenshot_files fset files m k = Some ps' \<and> p \<in> set ps'"
proof (induction files arbitrary: m ps)
  case Nil
  then show ?case by simp
next
  case (Cons fl files)
  show ?case
  proof (cases "screenshot_file fset fl m")
    case None
    with Cons.prems show ?thesis by simp
  next
    case (Some m')
    from screenshot_file_keeps[of m k ps p fset fl m'] Cons.prems Some
    obtain ps' where "m' k = Some ps'" "p \<in> set ps'" by blast
    from Cons.IH[of m' ps'] this Some show ?thesis by simp
  qed
qed

lemma screenshot_file_login:
  "isScenarioFailed ''Login Test'' fset \<Longrightarrow>
     \<exists>m'. screenshot_file fset ''login_test_failed.png'' m = Some m' \<and>
       (\<exists>ps. m' ''Login Test'' = Some ps \<and> ''screenshots/login_test_failed.png'' \<in> set ps)"
  by (cases "m ''Login Test''")
     (simp_all add: screenshot_file_def login_png testName_login login_path Let_def
        login_not_inherited)

lemma screenshot_file_no_raise:
  "\<not> raises (set fset) fl \<Longrightarrow> \<exists>m'. screenshot_file fset fl m = Some m'"
  by (auto simp: screenshot_file_def raises_def Let_def isScenarioFailed_iff split: option.splits)

lemma screenshot_files_prefix:
  "\<not> list_ex (raises (set fset)) pre \<Longrightarrow>
     \<exists>m'. screenshot_files fset (pre @ rest) m = screenshot_files fset rest m'"
proof (induction pre arbitrary: m)
  case Nil
  then show ?case by auto
next
  case (Cons fl pre)
  then have "\<not> raises (set fset) fl" and pre: "\<not> list_ex (raises (set fset)) pre" by simp_all
  from screenshot_file_no_raise[OF this(1), of m]
  obtain m1 where m1: "screenshot_file fset fl m = Some m1" by blast
  from Cons.IH[OF pre, of m1] m1 show ?case by simp
qed

lemma screenshot_files_login:
  assumes "isScenarioFailed ''Login Test'' fset" "\<not> list_ex (raises (set fset)) pre"
  shows "\<exists>ps. screenshot_files fset (pre @ ''login_test_failed.png'' # post) m ''Login Test'' = Some ps \<and>
          ''screenshots/login_test_failed.png'' \<in> set ps"
proof -
  from screenshot_files_prefix[OF assms(2), of "''login_test_failed.png'' # post" m]
  obtain m1 where m1: "screenshot_files fset (pre @ ''login_test_failed.png'' # post) m =
      screenshot_files fset (''login_test_failed.png'' # post) m1" by blast
  from screenshot_file_login[OF assms(1), of m1]
  obtain m2 ps where m2: "screenshot_file fset ''login_test_failed.png'' m1 = Some m2"
    "m2 ''Login Test'' = Some ps" "''screenshots/login_test_failed.png'' \<in> set ps" by blast
  from screenshot_files_keeps[of m2 "''Login Test''" ps "''screenshots/login_test_failed.png''"
      fset post] m2(2,3)
  show ?thesis by (simp add: m1 m2(1))
qed

lemma screenshot_file_keys:
  "(\<And>k ps. m k = Some ps \<Longrightarrow> isScenarioFailed k fset) \<Longrightarrow>
     screenshot_file fset fl m = Some m' \<Longrightarrow> m' k = Some ps \<Longrightarrow> isScenarioFailed k fset"
  by (auto simp: screenshot_file_def Let_def split: if_splits option.splits)

lemma screenshot_files_keys:
  "(\<And>k ps. m k = Some ps \<Longrightarrow> isScenarioFailed k fset) \<Longrightarrow>
     screenshot_files fset files m k = Some ps \<Longrightarrow> isScenarioFailed k fset"
proof (induction files arbitrary: m k ps)
  case Nil
  then show ?case by simp
next
  case (Cons fl files)
  show ?case
  proof (cases "screenshot_file fset fl m")
    case None
    with Cons.prems show ?thesis by simp
  next
    case (Some m')
    show ?thesis
    proof (rule Cons.IH[of m' k ps])
      show "\<And>k ps. m' k = Some ps \<Longrightarrow> isScenarioFailed k fset"
        using Cons.prems(1) Some by (rule screenshot_file_keys)
      show "screenshot_files fset files m' k = Some ps"
        using Cons.prems(2) Some by simp
    qed
  qed
qed

lemma findScreenshots_keys:
  "findScreenshots dir cucumberData k = Some shots \<Longrightarrow>
     matches_failed k (failed_names cucumberData)"
proof (cases dir)
  case None
  assume "findScreenshots dir cucumberData k = Some shots"
  with None show ?thesis by (simp add: findScreenshots_def)
next
  case (Some files)
  assume "findScreenshots dir cucumberData k = Some shots"
  with Some have "screenshot_files (failedScenarios_of cucumberData) files Map.empty k = Some shots"
    by (simp add: findScreenshots_def)
  then have "isScenarioFailed k (failedScenarios_of cucumberData)"
    by (rule screenshot_files_keys[rotated]) simp
  then show ?thesis by (simp add: isScenarioFailed_iff failed_names_eq)
qed

text \<open>
  C7. For ASCII file names and scenario names: the file \<open>login_test_failed.png\<close> is filed
  under the name \<open>Login Test\<close> whenever a scenario with a failed step has a name that is
  \<open>login test\<close> up to letter case and surrounding white space, and no file listed before
  it makes the loop throw. Every name under which \<open>findScreenshots\<close> files a screenshot
  is the name of a scenario with a failed step, or after lower-casing and trimming it
  occurs in the name of such a scenario or such a name occurs in it. When no scenario
  has a failed step, or the directory does not exist, nothing is filed.
\<close>

theorem screenshots_match_failed_scenarios:
  assumes chars: "list_all ascii files" "\<forall>n \<in> failed_names cucumberData. ascii n"
  shows "(files = pre @ ''login_test_failed.png'' # post \<and>
     \<not> list_ex (raises (failed_names cucumberData)) pre \<and>
     (\<exists>n \<in> failed_names cucumberData. clean n = ''login test'') \<longrightarrow>
      (\<exists>ps. findScreenshots (Some files) cucumberData ''Login Test'' = Some ps \<and>
            ''screenshots/login_test_failed.png'' \<in> set ps)) \<and>
   (findScreenshots (Some files) cucumberData k = Some shots \<longrightarrow>
      matches_failed k (failed_names cucumberData)) \<and>
   (failed_names cucumberData = {} \<longrightarrow> findScreenshots (Some files) cucumberData k = None) \<and>
   findScreenshots None cucumberData k = None"
proof (intro conjI impI)
  assume a: "files = pre @ ''login_test_failed.png'' # post \<and>
     \<not> list_ex (raises (failed_names cucumberData)) pre \<and>
     (\<exists>n \<in> failed_names cucumberData. clean n = ''login test'')"
  then have "isScenarioFailed ''Login Test'' (failedScenarios_of cucumberData)"
    by (simp add: isScenarioFailed_iff failed_names_eq [symmetric] matches_failed_login)
  moreover from a have "\<not> list_ex (raises (set (failedScenarios_of cucumberData))) pre"
    by (simp add: failed_names_eq)
  ultimately show "\<exists>ps. findScreenshots (Some files) cucumberData ''Login Test'' = Some ps \<and>
            ''screenshots/login_test_failed.png'' \<in> set ps"
    using a by (simp add: findScreenshots_def screenshot_files_login)
next
  assume "findScreenshots (Some files) cucumberData k = Some shots"
  then show "matches_failed k (failed_names cucumberData)"
    by (rule findScreenshots_keys)
next
  assume none: "failed_names cucumberData = {}"
  show "findScreenshots (Some files) cucumberData k = None"
  proof (cases "findScreenshots (Some files) cucumberData k")
    case None
    then show ?thesis .
  next
    case (Some shots)
    then have "matches_failed k (failed_names cucumberData)"
      by (rule findScreenshots_keys)
    with none show ?thesis by (simp add: matches_failed_def)
  qed
next
  show "findScreenshots None cucumberData k = None"
    by (simp add: findScreenshots_def)
qed

theorem screenshots_match_failed_scenarios_witness:
  "(\<exists>ps. findScreenshots (Some [''readme.txt'', ''login_test_failed.png'']) login_data ''Login Test'' = Some ps \<and>
         ''screenshots/login_test_failed.png'' \<in> set ps) \<and>
   matches_failed ''Login Test'' (failed_names login_data) \<and>
   findScreenshots (Some [''login_test_failed.png'']) [] ''Login Test'' = None"
proof -
  let ?files = "[''readme.txt'', ''login_test_failed.png'']"
  have names: "failed_names login_data = {''  LOGIN test ''}"
    unfolding failed_names_eq by code_simp
  have a1: "list_all ascii ?files" by code_simp
  have a2: "\<forall>n \<in> failed_names login_data. ascii n"
    unfolding names by code_simp
  have b: "?files = [''readme.txt''] @ ''login_test_failed.png'' # []" by simp
  have c: "\<not> list_ex (raises (failed_names login_data)) [''readme.txt'']"
  proof -
    have "\<not> str_endsWith ''readme.txt'' ''.png''" by code_simp
    then show ?thesis by (simp add: raises_def)
  qed
  have d: "\<exists>n \<in> failed_names login_data. clean n = ''login test''"
  proof -
    have "clean ''  LOGIN test '' = ''login test''" by code_simp
    then show ?thesis unfolding names by simp
  qed
  have ps: "\<exists>ps. findScreenshots (Some ?files) login_data ''Login Test'' = Some ps \<and>
         ''screenshots/login_test_failed.png'' \<in> set ps"
    using screenshots_match_failed_scenarios[OF a1 a2, of "[''readme.txt'']" "[]" "[]" "[]"] b c d
    by blast
  then obtain ps where ps': "findScreenshots (Some ?files) login_data ''Login Test'' = Some ps"
    by blast
  have e: "matches_failed ''Login Test'' (failed_names login_data)"
    using screenshots_match_failed_scenarios[OF a1 a2, of "[]" "[]" "''Login Test''" ps] ps'
    by blast
  have e1: "list_all ascii [''login_test_failed.png'']" by code_simp
  have e2: "\<forall>n \<in> failed_names []. ascii n"
    by (simp add: failed_names_def allScenarios_def)
  have e3: "failed_names [] = {}"
    by (simp add: failed_names_def allScenarios_def)
  have f: "findScreenshots (Some [''login_test_failed.png'']) [] ''Login Test'' = None"
    using screenshots_match_failed_scenarios[OF e1 e2, of "[]" "[]" "''Login Test''" "[]"] e3
    by blast
  from ps e f show ?thesis by blast
qed

theorem screenshot_under_passed_name_counterexample:
  "findScreenshots (Some [''login_test_failed.png'']) login_mfa_data ''Login Test'' =
     Some [''screenshots/login_test_failed.png''] \<and>
   failedScenarios_of login_mfa_data = [''Login Test With MFA''] \<and>
   getScenarioStatus (scenario_of ''Login Test'' [passed_step]) = ''passed''"
  by code_simp

text \<open>
  A file whose test name is the name of a property of \<^verbatim>\<open>Object.prototype\<close> and matches a
  failed scenario makes the loop throw: the screenshot of the failed scenario
  \<open>Login Test\<close>, listed after it, is not filed.
\<close>

lemma screenshots_lost_after_inherited_name:
  "findScreenshots (Some [''constructor.png'', ''login_test_failed.png'']) constructor_data
     ''Login Test'' = None \<and>
   failedScenarios_of constructor_data = [''Login Test'', ''constructor''] \<and>
   findScreenshots (Some [''login_test_failed.png'', ''constructor.png'']) constructor_data
     ''Login Test'' = Some [''screenshots/login_test_failed.png'']"
  by code_simp

section \<open>The step pattern\<close>

lemma last_dropWhile: "dropWhile P xs \<noteq> [] \<Longrightarrow> last (dropWhile P xs) = last xs"
  by (metis last_appendR takeWhile_dropWhile_id)

lemma trimmed_str_trim: "trimmed (str_trim l)"
proof (cases "str_trim l = []")
  case True
  then show ?thesis by (simp add: trimmed_def)
next
  case False
  define X where "X = dropWhile isWhiteSpace l"
  define Y where "Y = dropWhile isWhiteSpace (rev X)"
  have t: "str_trim l = rev Y" by (simp add: str_trim_def X_def Y_def)
  with False have Y: "Y \<noteq> []" by simp
  then have X: "X \<noteq> []" by (auto simp: Y_def)
  have "\<not> isWhiteSpace (hd Y)" using Y unfolding Y_def by (rule hd_dropWhile)
  then have l: "\<not> isWhiteSpace (last (str_trim l))" using Y by (simp add: t last_rev)
  have "last Y = last (rev X)" using Y unfolding Y_def by (rule last_dropWhile)
  also have "\<dots> = hd X" using X by (simp add: last_rev)
  finally have "hd (str_trim l) = hd X" using Y by (simp add: t hd_rev)
  moreover have "\<not> isWhiteSpace (hd X)" using X unfolding X_def by (rule hd_dropWhile)
  ultimately show ?thesis using l by (simp add: trimmed_def)
qed

lemma str_startsWith_Nil: "str_startsWith t []"
  by (simp add: str_startsWith_def)

lemma str_startsWith_Cons:
  "str_startsWith t (c # p) = (case t of [] \<Rightarrow> False | d # t' \<Rightarrow> d = c \<and> str_startsWith t' p)"
  by (cases t) (auto simp: str_startsWith_def)

lemma str_startsWith_take: "str_startsWith t k \<Longrightarrow> take (length k) t = k"
  by (simp add: str_startsWith_def)

lemma keyword_cases:
  obtains (none) "filter (str_startsWith t) step_keywords = []"
  | (some) k where "k \<in> set step_keywords" "str_startsWith t k"
      "filter (str_startsWith t) step_keywords = [k]"
proof -
  have "filter (str_startsWith t) step_keywords = [] \<or>
      (\<exists>k\<in>set step_keywords. str_startsWith t k \<and> filter (str_startsWith t) step_keywords = [k])"
    by (cases t) (auto simp: step_keywords_def str_startsWith_Cons)
  then show thesis using none some by blast
qed

lemma run_lengths_upt: "run_lengths c s = [0..<Suc (length (takeWhile (in_cls c) s))]"
proof (induction s)
  case Nil
  then show ?case by simp
next
  case (Cons x xs)
  define m where "m = length (takeWhile (in_cls c) xs)"
  show ?case
  proof (cases "in_cls c x")
    case True
    have "run_lengths c (x # xs) = 0 # map Suc [0..<Suc m]"
      using True Cons by (simp add: m_def)
    also have "\<dots> = 0 # [Suc 0..<Suc (Suc m)]"
      by (simp only: map_Suc_upt)
    also have "\<dots> = [0..<Suc (Suc m)]"
      by (simp add: upt_conv_Cons)
    finally show ?thesis using True by (simp add: m_def)
  next
    case False
    then show ?thesis by simp
  qed
qed

lemma lengths_greedy:
  "lengths (Rep c least True) s =
     (let m = length (takeWhile (in_cls c) s)
      in if least \<le> m then m # rev (filter (\<lambda>n. least \<le> n) [0..<m]) else [])"
proof -
  define m where "m = length (takeWhile (in_cls c) s)"
  have "\<not> least \<le> m \<Longrightarrow> filter (\<lambda>n. least \<le> n) [0..<m] = []"
    by (auto simp: filter_empty_conv)
  then show ?thesis
    by (simp add: run_lengths_upt Let_def m_def[symmetric])
qed

lemma lengths_greedy_set:
  "n \<in> set (lengths (Rep c least True) s) \<Longrightarrow> least \<le> n \<and> n \<le> length (takeWhile (in_cls c) s)"
  by (auto simp: lengths_greedy Let_def simp del: lengths.simps split: if_splits)

lemma first_some_None: "(\<And>x. x \<in> set xs \<Longrightarrow> f x = None) \<Longrightarrow> first_some f xs = None"
  by (induction xs) simp_all

lemma length_takeWhile_eq_length:
  "length (takeWhile P xs) = length xs \<longleftrightarrow> \<not> list_ex (\<lambda>x. \<not> P x) xs"
  by (induction xs) auto

lemma space_run_0:
  "length (takeWhile (in_cls Space) r) = 0 \<longleftrightarrow> r = [] \<or> \<not> isWhiteSpace (hd r)"
  by (cases r) auto

lemma match_Eos: "match_here [Eos] s caps = (if s = [] then Some caps else None)"
  by simp

lemma capture_rest:
  "match_here [Capture (Rep AnyChar 1 True), Eos] r caps =
     (if r \<noteq> [] \<and> \<not> list_ex isLineTerminator r then Some (caps @ [r]) else None)"
proof -
  define m where "m = length (takeWhile (in_cls AnyChar) r)"
  have mle: "m \<le> length r" unfolding m_def by (rule length_takeWhile_le)
  have all: "m = length r \<longleftrightarrow> \<not> list_ex isLineTerminator r"
    unfolding m_def by (simp add: length_takeWhile_eq_length)
  have unf: "match_here [Capture (Rep AnyChar 1 True), Eos] r caps =
      first_some (\<lambda>n. match_here [Eos] (drop n r) (caps @ [take n r]))
        (lengths (Rep AnyChar 1 True) r)"
    by (simp only: match_here.simps)
  show ?thesis
  proof (cases "r \<noteq> [] \<and> \<not> list_ex isLineTerminator r")
    case True
    then have "m = length r" "1 \<le> m" using all by (simp_all add: Suc_le_eq)
    then obtain js where "lengths (Rep AnyChar 1 True) r = length r # js"
      by (simp add: lengths_greedy m_def[symmetric] Let_def del: lengths.simps)
    with True show ?thesis
      unfolding unf by (simp del: lengths.simps)
  next
    case False
    have "first_some (\<lambda>n. match_here [Eos] (drop n r) (caps @ [take n r]))
        (lengths (Rep AnyChar 1 True) r) = None"
    proof (rule first_some_None)
      fix n assume "n \<in> set (lengths (Rep AnyChar 1 True) r)"
      then have n: "1 \<le> n" "n \<le> m"
        using lengths_greedy_set[of n AnyChar 1 r] by (simp_all add: m_def)
      with False all mle have "n < length r" by (cases "r = []") auto
      then show "match_here [Eos] (drop n r) (caps @ [take n r]) = None" by simp
    qed
    with False show ?thesis unfolding unf by simp
  qed
qed

lemma space_then_rest:
  assumes "r = [] \<or> \<not> isWhiteSpace (last r)"
  shows "match_here [Match (Rep Space 1 True), Capture (Rep AnyChar 1 True), Eos] r caps =
     (if r \<noteq> [] \<and> isWhiteSpace (hd r) \<and> \<not> list_ex isLineTerminator (dropWhile isWhiteSpace r)
      then Some (caps @ [dropWhile isWhiteSpace r]) else None)"
proof -
  define m where "m = length (takeWhile (in_cls Space) r)"
  define n where "n = dropWhile isWhiteSpace r"
  have m0: "m = 0 \<longleftrightarrow> r = [] \<or> \<not> isWhiteSpace (hd r)"
    unfolding m_def by (rule space_run_0)
  have tw: "takeWhile (in_cls Space) r = takeWhile isWhiteSpace r"
    by (rule takeWhile_cong) simp_all
  have dm: "drop m r = n"
    unfolding m_def n_def tw by (simp add: dropWhile_eq_drop)
  have unf: "match_here [Match (Rep Space 1 True), Capture (Rep AnyChar 1 True), Eos] r caps =
      first_some (\<lambda>j. match_here [Capture (Rep AnyChar 1 True), Eos] (drop j r) caps)
        (lengths (Rep Space 1 True) r)"
    by (simp only: match_here.simps)
  show ?thesis
  proof (cases "m = 0")
    case True
    then have "lengths (Rep Space 1 True) r = []"
      by (simp add: lengths_greedy m_def[symmetric] Let_def del: lengths.simps)
    with True m0 show ?thesis unfolding unf by auto
  next
    case False
    with m0 have r: "r \<noteq> []" "isWhiteSpace (hd r)" by auto
    with assms have "\<not> isWhiteSpace (last r)" by simp
    then have nn: "n \<noteq> []"
      unfolding n_def using r(1) by (metis dropWhile_eq_Nil_conv last_in_set)
    from False obtain js where ls: "lengths (Rep Space 1 True) r = m # js"
      by (simp add: lengths_greedy m_def[symmetric] Let_def Suc_le_eq del: lengths.simps)
    show ?thesis
    proof (cases "list_ex isLineTerminator n")
      case False
      with nn r show ?thesis
        unfolding unf ls first_some.simps capture_rest dm by (simp add: n_def)
    next
      case True
      have "first_some (\<lambda>j. match_here [Capture (Rep AnyChar 1 True), Eos] (drop j r) caps)
          (lengths (Rep Space 1 True) r) = None"
      proof (rule first_some_None)
        fix j assume "j \<in> set (lengths (Rep Space 1 True) r)"
        then have "j \<le> m" using lengths_greedy_set[of j Space 1 r] by (simp add: m_def)
        then have "drop j r = drop j (take m r) @ n"
          unfolding dm[symmetric]
          by (metis append_take_drop_id drop_append diff_is_0_eq drop_0 length_take min.absorb2
              length_takeWhile_le m_def)
        with True have "list_ex isLineTerminator (drop j r)" by (auto simp: list_ex_iff)
        then show "match_here [Capture (Rep AnyChar 1 True), Eos] (drop j r) caps = None"
          unfolding capture_rest by simp
      qed
      with True r show ?thesis unfolding unf by (simp add: n_def[symmetric])
    qed
  qed
qed

lemma space_only:
  "match_here [Match (Rep Space 1 True)] r caps =
     (if r \<noteq> [] \<and> isWhiteSpace (hd r) then Some caps else None)"
proof -
  define m where "m = length (takeWhile (in_cls Space) r)"
  have m0: "m = 0 \<longleftrightarrow> r = [] \<or> \<not> isWhiteSpace (hd r)"
    unfolding m_def by (rule space_run_0)
  have unf: "match_here [Match (Rep Space 1 True)] r caps =
      first_some (\<lambda>j. Some caps) (lengths (Rep Space 1 True) r)"
    by (simp only: match_here.simps)
  show ?thesis
    unfolding unf using m0
    by (cases "m = 0") (auto simp: lengths_greedy m_def[symmetric] Let_def Suc_le_eq simp del: lengths.simps)
qed

lemma leading_space:
  assumes "t = [] \<or> \<not> isWhiteSpace (hd t)"
  shows "match_here (Match (Rep Space 0 True) # rest) t caps = match_here rest t caps"
proof -
  from assms have "length (takeWhile (in_cls Space) t) = 0"
    by (simp only: space_run_0)
  then have "lengths (Rep Space 0 True) t = [0]"
    by (simp add: lengths_greedy Let_def del: lengths.simps)
  then show ?thesis by (simp del: lengths.simps split: option.splits)
qed

lemma capture_keyword_none:
  "filter (str_startsWith t) step_keywords = [] \<Longrightarrow>
     match_here (Capture (Alt step_keywords) # rest) t caps = None"
  by simp

lemma capture_keyword_some:
  "filter (str_startsWith t) step_keywords = [k] \<Longrightarrow> str_startsWith t k \<Longrightarrow>
     match_here (Capture (Alt step_keywords) # rest) t caps =
       match_here rest (drop (length k) t) (caps @ [k])"
  by (simp add: str_startsWith_take split: option.splits)

lemma stepMatch_trimmed:
  assumes "trimmed t"
  shows "stepMatch t = step_line t"
proof -
  from assms have hd: "t = [] \<or> \<not> isWhiteSpace (hd t)" by (auto simp: trimmed_def)
  show ?thesis
  proof (cases t rule: keyword_cases)
    case none
    have "match_here step_prefix_re t [] = None"
      unfolding step_prefix_re_def leading_space[OF hd] by (rule capture_keyword_none[OF none])
    with none show ?thesis
      by (simp add: stepMatch_def step_line_def)
  next
    case (some k)
    define r where "r = drop (length k) t"
    have last: "r = [] \<or> \<not> isWhiteSpace (last r)"
    proof (cases "r = []")
      case False
      then have "t \<noteq> []" "last r = last t" by (auto simp: r_def)
      with assms show ?thesis by (simp add: trimmed_def)
    qed simp
    have nn: "r \<noteq> [] \<Longrightarrow> dropWhile isWhiteSpace r \<noteq> []"
      using last by (metis dropWhile_eq_Nil_conv last_in_set)
    have pre: "match_here step_prefix_re t [] =
        (if r \<noteq> [] \<and> isWhiteSpace (hd r) then Some [k] else None)"
      unfolding step_prefix_re_def leading_space[OF hd] capture_keyword_some[OF some(3,2)]
        r_def[symmetric] space_only by simp
    have full: "match_here step_re t [] =
        (if r \<noteq> [] \<and> isWhiteSpace (hd r) \<and> \<not> list_ex isLineTerminator (dropWhile isWhiteSpace r)
         then Some [k, dropWhile isWhiteSpace r] else None)"
      unfolding step_re_def leading_space[OF hd] capture_keyword_some[OF some(3,2)]
        r_def[symmetric] space_then_rest[OF last] by simp
    show ?thesis
      using nn by (auto simp: stepMatch_def pre full step_line_def some(3) r_def[symmetric] Let_def)
  qed
qed

section \<open>The parser on a file with one scenario\<close>

lemma special_no_keyword:
  "str_startsWith t ''Feature:'' \<or> str_startsWith t ''Background:'' \<or> str_startsWith t ''Scenario:''
     \<Longrightarrow> filter (str_startsWith t) step_keywords = []"
  by (cases t) (auto simp: step_keywords_def str_startsWith_Cons split: list.splits)

lemma special_exclusive:
  "str_startsWith t ''Background:'' \<Longrightarrow> \<not> str_startsWith t ''Feature:''"
  "str_startsWith t ''Scenario:'' \<Longrightarrow> \<not> str_startsWith t ''Feature:''"
  "str_startsWith t ''Scenario:'' \<Longrightarrow> \<not> str_startsWith t ''Background:''"
  by (cases t; simp add: str_startsWith_Cons)+

lemma special_not_step:
  "is_feature_line l \<or> is_background_line l \<or> is_scenario_line l \<Longrightarrow> step_line (str_trim l) = None"
  unfolding is_feature_line_def is_background_line_def is_scenario_line_def
  by (drule special_no_keyword) (simp add: step_line_def)

lemma str_replace_prefix: "str_startsWith t p \<Longrightarrow> str_replace p [] t = drop (length p) t"
  by (cases t) (auto simp: str_startsWith_def)

lemma parse_line_feature:
  "is_feature_line l \<Longrightarrow>
     parse_line l s = s\<lparr>ps_name := str_trim (drop (length ''Feature:'') (str_trim l))\<rparr>"
  unfolding is_feature_line_def parse_line_def Let_def
  by (simp only: str_replace_prefix if_True)

lemma parse_line_background:
  "is_background_line l \<Longrightarrow> parse_line l s = s\<lparr>backgroundSteps := []\<rparr>"
  unfolding is_background_line_def parse_line_def Let_def
  by (simp only: special_exclusive if_True if_False)

lemma parse_line_scenario:
  "is_scenario_line l \<Longrightarrow>
     parse_line l s = start_scenario (str_trim (drop (length ''Scenario:'') (str_trim l))) s"
  unfolding is_scenario_line_def parse_line_def Let_def
  by (simp only: special_exclusive str_replace_prefix if_True if_False)

lemma parse_line_other:
  "\<not> is_feature_line l \<Longrightarrow> \<not> is_background_line l \<Longrightarrow> \<not> is_scenario_line l \<Longrightarrow>
     parse_line l s = (case step_line (str_trim l) of
                         Some (k, n) \<Rightarrow> push_step (new_step k n) s
                       | None \<Rightarrow> s)"
  unfolding is_feature_line_def is_background_line_def is_scenario_line_def parse_line_def Let_def
  by (simp only: if_False stepMatch_trimmed[OF trimmed_str_trim])

lemma line_steps_snoc:
  "line_steps (ls @ [l]) =
     line_steps ls @ (case step_line (str_trim l) of Some (k, n) \<Rightarrow> [new_step k n] | None \<Rightarrow> [])"
  by (simp add: line_steps_def map_filter_def split: option.splits)

lemma after_last_background_snoc:
  "after_last_background (ls @ [l]) =
     (if is_background_line l then [] else after_last_background ls @ [l])"
  by (simp add: after_last_background_def)

lemma ps_name_parse_line:
  "ps_name (parse_line l s) =
     (if is_feature_line l then str_trim (drop (length ''Feature:'') (str_trim l)) else ps_name s)"
proof (cases "is_feature_line l")
  case True
  then show ?thesis by (simp add: parse_line_feature)
next
  case f: False
  show ?thesis
  proof (cases "is_background_line l")
    case True
    with f show ?thesis by (simp add: parse_line_background)
  next
    case b: False
    show ?thesis
    proof (cases "is_scenario_line l")
      case True
      with f show ?thesis by (simp add: parse_line_scenario start_scenario_def)
    next
      case False
      with f b show ?thesis
        by (simp add: parse_line_other push_step_def Let_def split: option.splits)
    qed
  qed
qed

lemma ps_name_fold:
  "ps_name (fold parse_line ls s) =
     (if filter is_feature_line ls = [] then ps_name s
      else str_trim (drop (length ''Feature:'') (str_trim (last (filter is_feature_line ls)))))"
proof (induction ls rule: rev_induct)
  case Nil
  then show ?case by simp
next
  case (snoc l ls)
  show ?case
  proof (cases "is_feature_line l")
    case True
    then show ?thesis
      by (simp add: ps_name_parse_line)
  next
    case False
    with snoc show ?thesis
      by (simp add: ps_name_parse_line)
  qed
qed

lemma nth_grow: "list_all (\<lambda>r. r < length h) rs \<Longrightarrow> map (nth (h @ [x])) rs = map (nth h) rs"
  by (induction rs) (simp_all add: nth_append)

lemma list_all_grow:
  "list_all (\<lambda>r. r < length h) rs \<Longrightarrow> list_all (\<lambda>r. r < length (h @ [x])) (rs @ [length h])"
  by (induction rs) simp_all

lemma list_all_grow':
  "list_all (\<lambda>r. r < length h) rs \<Longrightarrow> list_all (\<lambda>r. r < length (h @ [x])) rs"
  by (induction rs) simp_all

lemma list_all_less_Suc: "list_all (\<lambda>r. r < n) rs \<Longrightarrow> list_all (\<lambda>r. r < Suc n) rs"
  by (auto simp: list_all_iff)

text \<open>Before the first scenario line: the background steps.\<close>

lemma background_phase:
  assumes "list_all (\<lambda>l. \<not> is_scenario_line l) ls"
  shows "currentScenario (fold parse_line ls parser_state0) = None \<and>
     scenarios (fold parse_line ls parser_state0) = [] \<and>
     list_all (\<lambda>r. r < length (ps_store (fold parse_line ls parser_state0)))
       (backgroundSteps (fold parse_line ls parser_state0)) \<and>
     map (nth (ps_store (fold parse_line ls parser_state0)))
       (backgroundSteps (fold parse_line ls parser_state0)) = line_steps (after_last_background ls)"
  using assms
proof (induction ls rule: rev_induct)
  case Nil
  then show ?case
    by (simp add: parser_state0_def line_steps_def after_last_background_def map_filter_def)
next
  case (snoc l ls)
  define s where "s = fold parse_line ls parser_state0"
  from snoc have IH: "currentScenario s = None" "scenarios s = []"
    "list_all (\<lambda>r. r < length (ps_store s)) (backgroundSteps s)"
    "map (nth (ps_store s)) (backgroundSteps s) = line_steps (after_last_background ls)"
    and l: "\<not> is_scenario_line l"
    by (simp_all add: s_def)
  have f: "fold parse_line (ls @ [l]) parser_state0 = parse_line l s"
    by (simp add: s_def)
  show ?case
  proof (cases "is_feature_line l")
    case True
    then have "\<not> is_background_line l"
      by (auto simp: is_feature_line_def is_background_line_def special_exclusive)
    with True IH show ?thesis
      unfolding f
      by (simp add: parse_line_feature after_last_background_snoc line_steps_snoc special_not_step)
  next
    case nf: False
    show ?thesis
    proof (cases "is_background_line l")
      case True
      with IH show ?thesis
        unfolding f
        by (simp add: parse_line_background after_last_background_snoc line_steps_def map_filter_def)
    next
      case nb: False
      show ?thesis
      proof (cases "step_line (str_trim l)")
        case None
        with nf nb l IH show ?thesis
          unfolding f
          by (simp add: parse_line_other after_last_background_snoc line_steps_snoc)
      next
        case (Some kn)
        obtain k n where kn: "kn = (k, n)" by (cases kn)
        with Some nf nb l IH show ?thesis
          unfolding f
          by (simp add: parse_line_other after_last_background_snoc line_steps_snoc push_step_def
              Let_def nth_grow list_all_less_Suc)
      qed
    qed
  qed
qed

text \<open>After a scenario line, up to the next one: the steps of the current scenario.\<close>

lemma scenario_phase:
  assumes "list_all (\<lambda>l. \<not> is_scenario_line l) ls"
    and "currentScenario s = Some sc" "steps sc = Some refs"
    and "list_all (\<lambda>r. r < length (ps_store s)) refs"
  shows "\<exists>refs'. currentScenario (fold parse_line ls s) = Some (sc\<lparr>steps := Some refs'\<rparr>) \<and>
     scenarios (fold parse_line ls s) = scenarios s \<and>
     list_all (\<lambda>r. r < length (ps_store (fold parse_line ls s))) refs' \<and>
     map (nth (ps_store (fold parse_line ls s))) refs' = map (nth (ps_store s)) refs @ line_steps ls"
  using assms(1)
proof (induction ls rule: rev_induct)
  case Nil
  show ?case
    using assms(2-4) by (auto simp: line_steps_def map_filter_def intro!: exI[of _ refs])
next
  case (snoc l ls)
  define s' where "s' = fold parse_line ls s"
  from snoc obtain refs' where IH: "currentScenario s' = Some (sc\<lparr>steps := Some refs'\<rparr>)"
    "scenarios s' = scenarios s"
    "list_all (\<lambda>r. r < length (ps_store s')) refs'"
    "map (nth (ps_store s')) refs' = map (nth (ps_store s)) refs @ line_steps ls"
    and l: "\<not> is_scenario_line l"
    by (auto simp: s'_def)
  have f: "fold parse_line (ls @ [l]) s = parse_line l s'"
    by (simp add: s'_def)
  show ?case
  proof (cases "is_feature_line l")
    case True
    with IH show ?thesis
      unfolding f
      by (auto simp: parse_line_feature line_steps_snoc special_not_step intro!: exI[of _ refs'])
  next
    case nf: False
    show ?thesis
    proof (cases "is_background_line l")
      case True
      with IH show ?thesis
        unfolding f
        by (auto simp: parse_line_background line_steps_snoc special_not_step intro!: exI[of _ refs'])
    next
      case nb: False
      show ?thesis
      proof (cases "step_line (str_trim l)")
        case None
        with nf nb l IH show ?thesis
          unfolding f
          by (auto simp: parse_line_other line_steps_snoc intro!: exI[of _ refs'])
      next
        case (Some kn)
        obtain k n where kn: "kn = (k, n)" by (cases kn)
        with Some nf nb l IH show ?thesis
          unfolding f
          by (auto simp: parse_line_other line_steps_snoc push_step_def Let_def nth_grow
              list_all_less_Suc or_empty_def intro!: exI[of _ "refs' @ [length (ps_store s')]"])
      qed
    qed
  qed
qed

text \<open>
  The parser returns \<^verbatim>\<open>null\<close> exactly when the name on the last \<^verbatim>\<open>Feature:\<close> line is
  empty or there is no such line.
\<close>

lemma parseFeatureFile_null:
  "(parseFeatureFile content filePath = None) = (declared_name (str_split CHR 0x0A content) = [])"
proof -
  have "ps_name (fold parse_line (str_split CHR 0x0A content) parser_state0) =
      declared_name (str_split CHR 0x0A content)"
    unfolding ps_name_fold declared_name_def by (simp add: parser_state0_def)
  then show ?thesis by (simp add: parseFeatureFile_def Let_def)
qed

text \<open>
  C5. An ASCII file with exactly one \<^verbatim>\<open>Scenario:\<close> line. When the name on its last
  \<^verbatim>\<open>Feature:\<close> line is empty, or it has no \<^verbatim>\<open>Feature:\<close> line, the parser returns
  \<^verbatim>\<open>null\<close>. Otherwise it returns a feature with that name and one scenario. The steps of
  the scenario are, in the order of the lines, the step lines between the last
  \<^verbatim>\<open>Background:\<close> line (or the start of the file) and the \<^verbatim>\<open>Scenario:\<close> line, followed by
  the step lines after the \<^verbatim>\<open>Scenario:\<close> line, each with its keyword, the rest of the line
  as its name, the status passed and the placeholder duration. Every other line is
  ignored.
\<close>

theorem single_scenario_steps:
  assumes chars: "ascii content"
    and lines: "str_split CHR 0x0A content = pre @ sl # post"
    and one: "is_scenario_line sl" "list_all (\<lambda>l. \<not> is_scenario_line l) (pre @ post)"
  shows "(declared_name (pre @ sl # post) = [] \<longrightarrow> parseFeatureFile content filePath = None) \<and>
    (declared_name (pre @ sl # post) \<noteq> [] \<longrightarrow>
      (\<exists>f h sc refs. parseFeatureFile content filePath = Some (f, h) \<and>
         feature_name f = declared_name (pre @ sl # post) \<and>
         elements f = Some [sc] \<and>
         scenario_name sc = str_trim (drop (length ''Scenario:'') (str_trim sl)) \<and>
         steps sc = Some refs \<and>
         map (nth h) refs = line_steps (after_last_background pre) @ line_steps post))"
proof (intro conjI impI)
  assume "declared_name (pre @ sl # post) = []"
  then show "parseFeatureFile content filePath = None"
    by (simp add: parseFeatureFile_null lines)
next
  assume name: "declared_name (pre @ sl # post) \<noteq> []"
  define s1 where "s1 = fold parse_line pre parser_state0"
  define sc where "sc = \<lparr>scenario_keyword = ''Scenario'',
     scenario_name = str_trim (drop (length ''Scenario:'') (str_trim sl)),
     steps = Some (backgroundSteps s1)\<rparr>"
  define s2 where "s2 = parse_line sl s1"
  define s3 where "s3 = fold parse_line post s2"
  from one(2) have pre: "list_all (\<lambda>l. \<not> is_scenario_line l) pre"
    and post: "list_all (\<lambda>l. \<not> is_scenario_line l) post" by simp_all
  note b = background_phase[OF pre, folded s1_def]
  have s2: "currentScenario s2 = Some sc" "scenarios s2 = []" "ps_store s2 = ps_store s1"
    using b by (simp_all add: s2_def parse_line_scenario[OF one(1)] start_scenario_def sc_def)
  have "steps sc = Some (backgroundSteps s1)" by (simp add: sc_def)
  moreover have "list_all (\<lambda>r. r < length (ps_store s2)) (backgroundSteps s1)"
    using b by (simp add: s2)
  ultimately obtain refs where
    r: "currentScenario s3 = Some (sc\<lparr>steps := Some refs\<rparr>)" "scenarios s3 = scenarios s2"
      "map (nth (ps_store s3)) refs = map (nth (ps_store s2)) (backgroundSteps s1) @ line_steps post"
    using scenario_phase[OF post s2(1), of "backgroundSteps s1", folded s3_def] by blast
  have s3: "fold parse_line (str_split CHR 0x0A content) parser_state0 = s3"
    by (simp add: lines s3_def s2_def s1_def)
  have nm: "ps_name s3 = declared_name (pre @ sl # post)"
    unfolding s3[symmetric] lines ps_name_fold declared_name_def
    by (simp add: parser_state0_def)
  have "parseFeatureFile content filePath =
      Some (\<lparr>feature_keyword = ''Feature'', feature_name = declared_name (pre @ sl # post),
              uri = Some filePath, elements = Some [sc\<lparr>steps := Some refs\<rparr>]\<rparr>, ps_store s3)"
    using name by (simp add: parseFeatureFile_def s3 Let_def r s2 nm)
  moreover have "map (nth (ps_store s3)) refs =
      line_steps (after_last_background pre) @ line_steps post"
    using r(3) b by (simp add: s2)
  ultimately show "\<exists>f h sc refs. parseFeatureFile content filePath = Some (f, h) \<and>
         feature_name f = declared_name (pre @ sl # post) \<and>
         elements f = Some [sc] \<and>
         scenario_name sc = str_trim (drop (length ''Scenario:'') (str_trim sl)) \<and>
         steps sc = Some refs \<and>
         map (nth h) refs = line_steps (after_last_background pre) @ line_steps post"
    by (auto simp: sc_def)
qed

theorem single_scenario_steps_witness:
  "(\<exists>f h sc refs. parseFeatureFile login_feature_file example_path = Some (f, h) \<and>
     feature_name f = ''API Login'' \<and>
     elements f = Some [sc] \<and>
     scenario_name sc = ''Login with valid credentials'' \<and>
     steps sc = Some refs \<and>
     map (nth h) refs =
       [new_step ''Given'' ''I have a valid user from database'',
        new_step ''When'' ''I login via API'',
        new_step ''Then'' ''I should get a successful response'',
        new_step ''And'' ''the response should contain user data'']) \<and>
   parseFeatureFile unnamed_feature_file example_path = None"
proof -
  let ?pre = "[''@api @login'', ''Feature: API Login'',
      ''  Simple login test based on cypress-realworld-app'', '''', ''  @smoke'']"
  let ?sl = "''  Scenario: Login with valid credentials''"
  let ?post = "[''    Given I have a valid user from database'', ''    When I login via API'',
      ''    Then I should get a successful response'',
      ''    And the response should contain user data'', '''']"
  have k: "ascii login_feature_file" by code_simp
  have a: "str_split CHR 0x0A login_feature_file = ?pre @ ?sl # ?post" by code_simp
  have b: "is_scenario_line ?sl" by code_simp
  have c: "list_all (\<lambda>l. \<not> is_scenario_line l) (?pre @ ?post)" by code_simp
  have d: "declared_name (?pre @ ?sl # ?post) = ''API Login''" by code_simp
  have e: "str_trim (drop (length ''Scenario:'') (str_trim ?sl)) = ''Login with valid credentials''"
    by code_simp
  have f: "line_steps (after_last_background ?pre) @ line_steps ?post =
       [new_step ''Given'' ''I have a valid user from database'',
        new_step ''When'' ''I login via API'',
        new_step ''Then'' ''I should get a successful response'',
        new_step ''And'' ''the response should contain user data'']"
    by code_simp
  have g: "declared_name (?pre @ ?sl # ?post) \<noteq> []" unfolding d by simp
  let ?upre = "[''Feature:'']"
  let ?usl = "''  Scenario: Create user''"
  let ?upost = "[''    When I have new user data'', '''']"
  have uk: "ascii unnamed_feature_file" by code_simp
  have ua: "str_split CHR 0x0A unnamed_feature_file = ?upre @ ?usl # ?upost" by code_simp
  have ub: "is_scenario_line ?usl" by code_simp
  have uc: "list_all (\<lambda>l. \<not> is_scenario_line l) (?upre @ ?upost)" by code_simp
  have ud: "declared_name (?upre @ ?usl # ?upost) = []" by code_simp
  from single_scenario_steps[OF k a b c, of example_path] g
  have first: "\<exists>f h sc refs. parseFeatureFile login_feature_file example_path = Some (f, h) \<and>
     feature_name f = declared_name (?pre @ ?sl # ?post) \<and>
     elements f = Some [sc] \<and>
     scenario_name sc = str_trim (drop (length ''Scenario:'') (str_trim ?sl)) \<and>
     steps sc = Some refs \<and>
     map (nth h) refs = line_steps (after_last_background ?pre) @ line_steps ?post"
    by blast
  from single_scenario_steps[OF uk ua ub uc, of example_path] ud
  have second: "parseFeatureFile unnamed_feature_file example_path = None" by blast
  from first second show ?thesis unfolding d e f by blast
qed

theorem keyword_line_count_counterexample:
  "length (filter starts_with_keyword (str_split CHR 0x0A keyword_prefix_file)) = 3 \<and>
   parsed_steps (parseFeatureFile keyword_prefix_file example_path) =
     Some [[new_step ''When'' ''I have new user data'']] \<and>
   length (filter starts_with_keyword (drop 5 (str_split CHR 0x0A example_file))) = 2 \<and>
   parsed_steps (parseFeatureFile example_file example_path) =
     Some [[new_step ''Given'' ''I am logged in via API'',
            new_step ''When'' ''I have new user data'',
            new_step ''Then'' ''the user is created'']] \<and>
   parseFeatureFile unnamed_feature_file example_path = None"
  by code_simp

end
